theory Spec2Isabelle
  imports Main "HOL-Library.FSet"
begin

section \<open>Errors\<close>

text \<open>
  Both source files report failures by throwing \<open>std::invalid_argument\<close>.  An access
  past the end of an Eigen vector (an Eigen assertion, undefined behaviour in a release
  build) is a second, separate outcome of the model, so that no out-of-range read is
  hidden behind a total HOL function.
\<close>

datatype error = invalid_argument | index_out_of_range

section \<open>minibmg: the out-nodes index (out\_nodes.cpp)\<close>

text \<open>
  A \<open>Nodep\<close> is a shared pointer, compared by address: the model uses the address.
  The node classes are declared outside \<open>out_nodes.cpp\<close>; the model has one
  constructor per class the code casts to, and \<open>op\<close> gives the operator tag the
  \<open>switch\<close> reads.  Every operator other than the three the code names is
  \<open>OTHER k\<close>.  The nodes are immutable, so the heap \<open>H\<close> is a function from
  addresses to nodes, and a graph is the sequence of addresses its iterator yields.
\<close>

type_synonym Nodep = nat

datatype Operator = CONSTANT | VARIABLE | QUERY | OTHER nat

datatype minibmg_Node =
    ConstantNode
  | VariableNode
  | QueryNode Nodep
  | OperatorNode nat "Nodep list"

fun op :: "minibmg_Node \<Rightarrow> Operator" where
  "op ConstantNode = Operator.CONSTANT"
| "op VariableNode = Operator.VARIABLE"
| "op (QueryNode i) = Operator.QUERY"
| "op (OperatorNode k ins) = Operator.OTHER k"

text \<open>The declared input list of a node: what \<open>in_node\<close> and \<open>in_nodes\<close> hold.\<close>

fun declared_inputs :: "minibmg_Node \<Rightarrow> Nodep list" where
  "declared_inputs ConstantNode = []"
| "declared_inputs VariableNode = []"
| "declared_inputs (QueryNode i) = [i]"
| "declared_inputs (OperatorNode k ins) = ins"

type_synonym Out_Nodes_Data = "Nodep \<rightharpoonup> Nodep list"

definition for_node :: "Out_Nodes_Data \<Rightarrow> Nodep \<Rightarrow> error + Nodep list" where
  "for_node node_map node =
     (case node_map node of
        None \<Rightarrow> Inl invalid_argument
      | Some found \<Rightarrow> Inr found)"

text \<open>\<open>data->for_node(in_node).push_back(node)\<close>, for each input in turn.\<close>

fun push_back_all :: "Nodep \<Rightarrow> Nodep list \<Rightarrow> Out_Nodes_Data \<Rightarrow> error + Out_Nodes_Data" where
  "push_back_all node [] d = Inr d"
| "push_back_all node (in_node # rest) d =
     (case for_node d in_node of
        Inl e \<Rightarrow> Inl e
      | Inr predecessor_out_set \<Rightarrow>
          push_back_all node rest (d(in_node \<mapsto> predecessor_out_set @ [node])))"

text \<open>The body of the \<open>switch\<close> for one node.\<close>

definition create_node :: "(Nodep \<Rightarrow> minibmg_Node) \<Rightarrow> Nodep \<Rightarrow> Out_Nodes_Data \<Rightarrow> error + Out_Nodes_Data" where
  "create_node H node d =
     (case op (H node) of
        Operator.CONSTANT \<Rightarrow> Inr d
      | Operator.VARIABLE \<Rightarrow> Inr d
      | Operator.QUERY \<Rightarrow>
          (case H node of
             QueryNode in_node \<Rightarrow>
               (case for_node d in_node of
                  Inl e \<Rightarrow> Inl e
                | Inr predecessor_out_set \<Rightarrow> Inr (d(in_node \<mapsto> predecessor_out_set @ [node])))
           | _ \<Rightarrow> Inr d)
      | Operator.OTHER k \<Rightarrow>
          (case H node of
             OperatorNode k' in_nodes \<Rightarrow> push_back_all node in_nodes d
           | _ \<Rightarrow> Inr d))"

fun create_loop :: "(Nodep \<Rightarrow> minibmg_Node) \<Rightarrow> Nodep list \<Rightarrow> Out_Nodes_Data \<Rightarrow> error + Out_Nodes_Data" where
  "create_loop H [] d = Inr d"
| "create_loop H (node # rest) d =
     (case create_node H node (d(node \<mapsto> [])) of
        Inl e \<Rightarrow> Inl e
      | Inr d' \<Rightarrow> create_loop H rest d')"

definition create :: "(Nodep \<Rightarrow> minibmg_Node) \<Rightarrow> Nodep list \<Rightarrow> error + Out_Nodes_Data" where
  "create H g = create_loop H g Map.empty"

text \<open>
  \<open>Out_Nodes_Property::get\<close> returns the memoised result of \<open>create\<close> for the graph;
  the graph is immutable, so the memoised value is the value of \<open>create\<close>.
\<close>

definition out_nodes :: "(Nodep \<Rightarrow> minibmg_Node) \<Rightarrow> Nodep list \<Rightarrow> Nodep \<Rightarrow> error + Nodep list" where
  "out_nodes H graph node =
     (case create H graph of
        Inl e \<Rightarrow> Inl e
      | Inr data \<Rightarrow> for_node data node)"

text \<open>
  A graph as the graph class hands it out: no node twice, and every declared input of a
  node is a node the iteration has reached already (the node itself included).
\<close>

fun inputs_precede :: "(Nodep \<Rightarrow> minibmg_Node) \<Rightarrow> Nodep list \<Rightarrow> Nodep list \<Rightarrow> bool" where
  "inputs_precede H seen [] = True"
| "inputs_precede H seen (node # rest) =
     (node \<notin> set seen \<and>
      list_all (\<lambda>i. i \<in> set (node # seen)) (declared_inputs (H node)) \<and>
      inputs_precede H (node # seen) rest)"

definition graph_ok :: "(Nodep \<Rightarrow> minibmg_Node) \<Rightarrow> Nodep list \<Rightarrow> bool" where
  "graph_ok H g = inputs_precede H [] g"

text \<open>The consumers of \<open>A\<close>, in the graph's order, one entry per use.\<close>

definition consumers :: "(Nodep \<Rightarrow> minibmg_Node) \<Rightarrow> Nodep list \<Rightarrow> Nodep \<Rightarrow> Nodep list" where
  "consumers H g A =
     concat (map (\<lambda>B. replicate (count_list (declared_inputs (H B)) A) B) g)"

section \<open>The global inference state (global\_state.cpp)\<close>

subsection \<open>Values and nodes\<close>

text \<open>
  The value and node classes are declared outside \<open>global_state.cpp\<close>.  The model has
  the fields and enumerators the code reads and writes; each enumeration has the
  enumerator the code tests and one constructor for all the others.  A double is a
  value of the type parameter \<open>'d\<close>: the code copies doubles and, in one place, adds
  them, and the addition is a parameter.

  A matrix is the list of its columns, which is Eigen's default (column-major) storage
  order: \<open>size()\<close> is the number of coefficients and \<open>data()\<close> is the columns one after
  the other.
\<close>

datatype VariableType = SCALAR | OTHER_VARIABLE nat

datatype TransformType = NONE | OTHER_TRANSFORM nat

datatype NodeType = OPERATOR | OTHER_NODE nat

type_synonym 'd MatrixXd = "'d list list"

definition matrix_size :: "'d MatrixXd \<Rightarrow> nat" where
  "matrix_size m = length (concat m)"

definition matrix_data :: "'d MatrixXd \<Rightarrow> 'd list" where
  "matrix_data m = concat m"

text \<open>
  Assigning a vector (here a segment of a vector) to a dynamically sized Eigen matrix
  resizes the matrix to the dimensions of the vector: one column.
\<close>

definition matrix_of_vector :: "'d list \<Rightarrow> 'd MatrixXd" where
  "matrix_of_vector v = [v]"

record 'd NodeValue =
  variable_type :: VariableType
  nv_double :: 'd
  nv_matrix :: "'d MatrixXd"

record 'd DoubleMatrix =
  dm_double :: 'd
  dm_matrix :: "'d MatrixXd"

text \<open>
  A node pointer is the index of the node in \<open>graph.nodes\<close>.  \<open>stochastic\<close> is the
  result of the virtual \<open>is_stochastic()\<close>; \<open>node_value\<close> is the member \<open>value\<close>.
\<close>

record 'd Node =
  is_observed :: bool
  stochastic :: bool
  node_type :: NodeType
  in_nodes :: "nat list"
  node_value :: "'d NodeValue"
  unconstrained_value :: "'d NodeValue"
  transform_type :: TransformType
  back_grad1 :: "'d DoubleMatrix"

subsection \<open>Collaborators\<close>

text \<open>
  What the file calls and does not define, as the spec describes it: \<open>eval\<close> gives a
  node its value, drawn with the random generator or computed from the inputs (here the
  new value and the advanced generator); the transform of a node and its inverse map a
  value to its unconstrained representation and back; the graph's gradient pass
  populates every node's gradient accumulator (here the new gradient of every node); the
  graph's log-probability pass returns the joint log-probability.  Two more parameters
  are the addition of doubles and the content of freshly resized vector storage.
\<close>

record ('d, 'g) Collaborators =
  eval :: "'d Node list \<Rightarrow> nat \<Rightarrow> 'g \<Rightarrow> 'd NodeValue \<times> 'g"
  transform_apply :: "TransformType \<Rightarrow> 'd NodeValue \<Rightarrow> 'd NodeValue"
  transform_inverse :: "TransformType \<Rightarrow> 'd NodeValue \<Rightarrow> 'd NodeValue"
  graph_update_backgrad :: "'d Node list \<Rightarrow> nat list \<Rightarrow> nat \<Rightarrow> 'd DoubleMatrix"
  graph_full_log_prob :: "'d Node list \<Rightarrow> nat list \<Rightarrow> 'd"
  plus_double :: "'d \<Rightarrow> 'd \<Rightarrow> 'd"
  uninitialized :: "'d"

text \<open>
  Modelled from the spec: \<open>StochasticOperator::get_unconstrained_value\<close> and
  \<open>StochasticOperator::get_original_value\<close> are not among the source files.
  \<open>get_unconstrained_value\<close> returns a mutable reference to the reparameterized value,
  which for the identity transform (\<open>NONE\<close>) is the value itself; called with
  \<open>true\<close> it first recomputes the unconstrained value from the value.
  \<open>get_original_value(true)\<close> recomputes the value from the unconstrained value by the
  inverse transform; for the identity transform there is nothing to recompute.
\<close>

definition get_unconstrained_value :: "'d Node \<Rightarrow> 'd NodeValue" where
  "get_unconstrained_value n =
     (if transform_type n = TransformType.NONE then node_value n else unconstrained_value n)"

definition set_unconstrained_value :: "'d NodeValue \<Rightarrow> 'd Node \<Rightarrow> 'd Node" where
  "set_unconstrained_value v n =
     (if transform_type n = TransformType.NONE then n\<lparr>node_value := v\<rparr>
      else n\<lparr>unconstrained_value := v\<rparr>)"

definition sync_unconstrained_value :: "('d, 'g) Collaborators \<Rightarrow> 'd Node \<Rightarrow> 'd Node" where
  "sync_unconstrained_value X n =
     (if transform_type n = TransformType.NONE then n
      else n\<lparr>unconstrained_value := transform_apply X (transform_type n) (node_value n)\<rparr>)"

definition get_original_value :: "('d, 'g) Collaborators \<Rightarrow> 'd Node \<Rightarrow> 'd Node" where
  "get_original_value X n =
     (if transform_type n \<noteq> TransformType.NONE
      then n\<lparr>node_value := transform_inverse X (transform_type n) (unconstrained_value n)\<rparr>
      else n)"

subsection \<open>The state\<close>

text \<open>
  \<open>graph\<close> is the node vector of the graph the state refers to; the operations mutate
  the nodes through it.  An operation returns the exception it threw, if any, together
  with the state at that moment.
\<close>

record 'd GlobalState =
  graph :: "'d Node list"
  ordered_support :: "nat list"
  stochastic_nodes :: "nat list"
  deterministic_nodes :: "nat list"
  flat_size :: nat
  stochastic_unconstrained_vals_backup :: "'d NodeValue list"
  stochastic_unconstrained_grads_backup :: "'d DoubleMatrix list"
  log_prob :: 'd

subsection \<open>Backup and revert\<close>

fun backup_values_loop :: "nat list \<Rightarrow> 'd GlobalState \<Rightarrow> error option \<times> 'd GlobalState" where
  "backup_values_loop [] s = (None, s)"
| "backup_values_loop (sto_node_id # ids) s =
     (if sto_node_id < length (stochastic_unconstrained_vals_backup s) then
        backup_values_loop ids
          (s\<lparr>stochastic_unconstrained_vals_backup :=
               (stochastic_unconstrained_vals_backup s)
                 [sto_node_id :=
                    get_unconstrained_value (graph s ! (stochastic_nodes s ! sto_node_id))]\<rparr>)
      else (Some index_out_of_range, s))"

definition backup_unconstrained_values :: "'d GlobalState \<Rightarrow> error option \<times> 'd GlobalState" where
  "backup_unconstrained_values s = backup_values_loop [0..<length (stochastic_nodes s)] s"

fun backup_grads_loop :: "nat list \<Rightarrow> 'd GlobalState \<Rightarrow> error option \<times> 'd GlobalState" where
  "backup_grads_loop [] s = (None, s)"
| "backup_grads_loop (sto_node_id # ids) s =
     (if sto_node_id < length (stochastic_unconstrained_grads_backup s) then
        backup_grads_loop ids
          (s\<lparr>stochastic_unconstrained_grads_backup :=
               (stochastic_unconstrained_grads_backup s)
                 [sto_node_id := back_grad1 (graph s ! (stochastic_nodes s ! sto_node_id))]\<rparr>)
      else (Some index_out_of_range, s))"

definition backup_unconstrained_grads :: "'d GlobalState \<Rightarrow> error option \<times> 'd GlobalState" where
  "backup_unconstrained_grads s = backup_grads_loop [0..<length (stochastic_nodes s)] s"

fun revert_values_loop ::
  "('d, 'g) Collaborators \<Rightarrow> nat list \<Rightarrow> 'd GlobalState \<Rightarrow> error option \<times> 'd GlobalState" where
  "revert_values_loop X [] s = (None, s)"
| "revert_values_loop X (sto_node_id # ids) s =
     (if sto_node_id < length (stochastic_unconstrained_vals_backup s) then
        (let p = stochastic_nodes s ! sto_node_id;
             stochastic_node = graph s ! p;
             restored = set_unconstrained_value
                          (stochastic_unconstrained_vals_backup s ! sto_node_id) stochastic_node
         in revert_values_loop X ids
              (s\<lparr>graph := (graph s)[p := get_original_value X restored]\<rparr>))
      else (Some index_out_of_range, s))"

definition revert_unconstrained_values ::
  "('d, 'g) Collaborators \<Rightarrow> 'd GlobalState \<Rightarrow> error option \<times> 'd GlobalState" where
  "revert_unconstrained_values X s =
     revert_values_loop X [0..<length (stochastic_nodes s)] s"

fun revert_grads_loop :: "nat list \<Rightarrow> 'd GlobalState \<Rightarrow> error option \<times> 'd GlobalState" where
  "revert_grads_loop [] s = (None, s)"
| "revert_grads_loop (sto_node_id # ids) s =
     (if sto_node_id < length (stochastic_unconstrained_grads_backup s) then
        (let p = stochastic_nodes s ! sto_node_id
         in revert_grads_loop ids
              (s\<lparr>graph := (graph s)
                   [p := (graph s ! p)
                      \<lparr>back_grad1 := stochastic_unconstrained_grads_backup s ! sto_node_id\<rparr>]\<rparr>))
      else (Some index_out_of_range, s))"

definition revert_unconstrained_grads :: "'d GlobalState \<Rightarrow> error option \<times> 'd GlobalState" where
  "revert_unconstrained_grads s = revert_grads_loop [0..<length (stochastic_nodes s)] s"

subsection \<open>Flatten and unflatten\<close>

text \<open>
  \<open>resize\<close> keeps a vector that has the requested size already and otherwise gives
  fresh storage, whose content is not defined by Eigen.
\<close>

definition resize :: "'d \<Rightarrow> nat \<Rightarrow> 'd list \<Rightarrow> 'd list" where
  "resize u n v = (if length v = n then v else replicate n u)"

text \<open>\<open>v.segment(i, n) = w\<close> with \<open>n\<close> the size of \<open>w\<close>, once \<open>i + n\<close> is in range.\<close>

definition write_segment :: "nat \<Rightarrow> 'd list \<Rightarrow> 'd list \<Rightarrow> 'd list" where
  "write_segment i w v = take i v @ w @ drop (i + length w) v"

text \<open>\<open>v.segment(i, n)\<close>, once \<open>i + n\<close> is in range.\<close>

definition segment :: "nat \<Rightarrow> nat \<Rightarrow> 'd list \<Rightarrow> 'd list" where
  "segment i n v = take n (drop i v)"

fun get_flattened_values_loop ::
  "'d Node list \<Rightarrow> nat list \<Rightarrow> nat \<Rightarrow> 'd list \<Rightarrow> error option \<times> 'd list" where
  "get_flattened_values_loop g [] i flattened_values = (None, flattened_values)"
| "get_flattened_values_loop g (node # rest) i flattened_values =
     (let val = get_unconstrained_value (g ! node) in
      if variable_type val = VariableType.SCALAR then
        (if i < length flattened_values then
           get_flattened_values_loop g rest (i + 1) (flattened_values[i := nv_double val])
         else (Some index_out_of_range, flattened_values))
      else
        (let vector = matrix_data (nv_matrix val) in
         if i + length vector \<le> length flattened_values then
           get_flattened_values_loop g rest (i + matrix_size (nv_matrix val))
             (write_segment i vector flattened_values)
         else (Some index_out_of_range, flattened_values)))"

definition get_flattened_unconstrained_values ::
  "('d, 'g) Collaborators \<Rightarrow> 'd GlobalState \<Rightarrow> 'd list \<Rightarrow> error option \<times> 'd list" where
  "get_flattened_unconstrained_values X s flattened_values =
     get_flattened_values_loop (graph s) (stochastic_nodes s) 0
       (resize (uninitialized X) (flat_size s) flattened_values)"

fun set_flattened_values_loop ::
  "('d, 'g) Collaborators \<Rightarrow> 'd list \<Rightarrow> nat list \<Rightarrow> nat \<Rightarrow> 'd Node list \<Rightarrow>
     error option \<times> 'd Node list" where
  "set_flattened_values_loop X flattened_values [] i g = (None, g)"
| "set_flattened_values_loop X flattened_values (node # rest) i g =
     (let sto_node = g ! node;
          val = get_unconstrained_value sto_node;
          sync = (\<lambda>n. if transform_type n \<noteq> TransformType.NONE
                       then get_original_value X n else n)
      in
      if variable_type val = VariableType.SCALAR then
        (if i < length flattened_values then
           set_flattened_values_loop X flattened_values rest (i + 1)
             (g[node := sync (set_unconstrained_value
                                (val\<lparr>nv_double := flattened_values ! i\<rparr>) sto_node)])
         else (Some index_out_of_range, g))
      else
        (if i + matrix_size (nv_matrix val) \<le> length flattened_values then
           set_flattened_values_loop X flattened_values rest (i + matrix_size (nv_matrix val))
             (g[node := sync (set_unconstrained_value
                                (val\<lparr>nv_matrix := matrix_of_vector
                                       (segment i (matrix_size (nv_matrix val)) flattened_values)\<rparr>)
                                sto_node)])
         else (Some index_out_of_range, g)))"

definition set_flattened_unconstrained_values ::
  "('d, 'g) Collaborators \<Rightarrow> 'd list \<Rightarrow> 'd GlobalState \<Rightarrow> error option \<times> 'd GlobalState" where
  "set_flattened_unconstrained_values X flattened_values s =
     (if length flattened_values \<noteq> flat_size s then (Some invalid_argument, s)
      else
        (case set_flattened_values_loop X flattened_values (stochastic_nodes s) 0 (graph s) of
           (e, g') \<Rightarrow> (e, s\<lparr>graph := g'\<rparr>)))"

definition add_to_stochastic_unconstrained_nodes ::
  "('d, 'g) Collaborators \<Rightarrow> 'd list \<Rightarrow> 'd GlobalState \<Rightarrow> error option \<times> 'd GlobalState" where
  "add_to_stochastic_unconstrained_nodes X increment s =
     (if length increment \<noteq> flat_size s then (Some invalid_argument, s)
      else
        (case get_flattened_unconstrained_values X s [] of
           (Some e, flattened_values) \<Rightarrow> (Some e, s)
         | (None, flattened_values) \<Rightarrow>
             set_flattened_unconstrained_values X
               (map2 (plus_double X) flattened_values increment) s))"

fun get_flattened_grads_loop ::
  "'d Node list \<Rightarrow> nat list \<Rightarrow> nat \<Rightarrow> 'd list \<Rightarrow> error option \<times> 'd list" where
  "get_flattened_grads_loop g [] i flattened_grad = (None, flattened_grad)"
| "get_flattened_grads_loop g (node # rest) i flattened_grad =
     (if variable_type (node_value (g ! node)) = VariableType.SCALAR then
        (if i < length flattened_grad then
           get_flattened_grads_loop g rest (i + 1)
             (flattened_grad[i := dm_double (back_grad1 (g ! node))])
         else (Some index_out_of_range, flattened_grad))
      else
        (let vector = matrix_data (dm_matrix (back_grad1 (g ! node))) in
         if i + length vector \<le> length flattened_grad then
           get_flattened_grads_loop g rest (i + matrix_size (dm_matrix (back_grad1 (g ! node))))
             (write_segment i vector flattened_grad)
         else (Some index_out_of_range, flattened_grad)))"

definition get_flattened_unconstrained_grads ::
  "('d, 'g) Collaborators \<Rightarrow> 'd GlobalState \<Rightarrow> 'd list \<Rightarrow> error option \<times> 'd list" where
  "get_flattened_unconstrained_grads X s flattened_grad =
     get_flattened_grads_loop (graph s) (stochastic_nodes s) 0
       (resize (uninitialized X) (flat_size s) flattened_grad)"

subsection \<open>Log-probability and gradient refresh\<close>

definition get_log_prob :: "'d GlobalState \<Rightarrow> 'd" where
  "get_log_prob s = log_prob s"

definition update_log_prob :: "('d, 'g) Collaborators \<Rightarrow> 'd GlobalState \<Rightarrow> 'd GlobalState" where
  "update_log_prob X s = s\<lparr>log_prob := graph_full_log_prob X (graph s) (ordered_support s)\<rparr>"

definition update_backgrad :: "('d, 'g) Collaborators \<Rightarrow> 'd GlobalState \<Rightarrow> 'd GlobalState" where
  "update_backgrad X s =
     s\<lparr>graph := map (\<lambda>i. (graph s ! i)
                          \<lparr>back_grad1 := graph_update_backgrad X (graph s) (ordered_support s) i\<rparr>)
                    [0..<length (graph s)]\<rparr>"

subsection \<open>Construction\<close>

text \<open>
  \<open>graph.compute_support()\<close> is not among the source files; its result, a
  \<open>std::set<uint>\<close>, is the parameter \<open>supp\<close>.  Iterating over a \<open>std::set\<close> visits its
  elements in increasing order.  \<open>graph.nodes[node_id]\<close> past the end of the vector is
  the outcome \<open>index_out_of_range\<close>.
\<close>

fun support_loop :: "nat list \<Rightarrow> 'd GlobalState \<Rightarrow> error option \<times> 'd GlobalState" where
  "support_loop [] s = (None, s)"
| "support_loop (node_id # rest) s =
     (if node_id < length (graph s) then
        support_loop rest (s\<lparr>ordered_support := ordered_support s @ [node_id]\<rparr>)
      else (Some index_out_of_range, s))"

fun initialize_values ::
  "('d, 'g) Collaborators \<Rightarrow> nat list \<Rightarrow> 'd Node list \<Rightarrow> 'g \<Rightarrow> 'd Node list \<times> 'g" where
  "initialize_values X [] g gen = (g, gen)"
| "initialize_values X (p # rest) g gen =
     (let node = g ! p;
          (node1, gen1) =
            (if \<not> is_observed node then
               (case eval X g p gen of (v, gen') \<Rightarrow> (node\<lparr>node_value := v\<rparr>, gen'))
             else (node, gen));
          node2 =
            (if stochastic node1 \<and> node_type node1 = NodeType.OPERATOR
             then sync_unconstrained_value X node1 else node1)
      in initialize_values X rest (g[p := node2]) gen1)"

fun partition_loop :: "nat list \<Rightarrow> 'd GlobalState \<Rightarrow> 'd GlobalState" where
  "partition_loop [] s = s"
| "partition_loop (p # rest) s =
     (let node = graph s ! p in
      if stochastic node \<and> \<not> is_observed node then
        partition_loop rest
          (s\<lparr>stochastic_nodes := stochastic_nodes s @ [p],
              stochastic_unconstrained_vals_backup :=
                stochastic_unconstrained_vals_backup s @ [get_unconstrained_value node],
              stochastic_unconstrained_grads_backup :=
                stochastic_unconstrained_grads_backup s @ [back_grad1 node]\<rparr>)
      else if \<not> stochastic node then
        partition_loop rest (s\<lparr>deterministic_nodes := deterministic_nodes s @ [p]\<rparr>)
      else partition_loop rest s)"

fun flat_size_loop :: "nat list \<Rightarrow> 'd GlobalState \<Rightarrow> 'd GlobalState" where
  "flat_size_loop [] s = s"
| "flat_size_loop (p # rest) s =
     (let unconstrained = get_unconstrained_value (graph s ! p) in
      if variable_type unconstrained = VariableType.SCALAR then
        flat_size_loop rest (s\<lparr>flat_size := flat_size s + 1\<rparr>)
      else
        flat_size_loop rest
          (s\<lparr>flat_size := flat_size s + matrix_size (nv_matrix unconstrained)\<rparr>))"

definition GlobalState_init ::
  "('d, 'g) Collaborators \<Rightarrow> 'd Node list \<Rightarrow> nat fset \<Rightarrow> 'g \<Rightarrow> error option \<times> 'd GlobalState" where
  "GlobalState_init X g supp gen =
     (let s0 = \<lparr>graph = g, ordered_support = [], stochastic_nodes = [],
                deterministic_nodes = [], flat_size = 0,
                stochastic_unconstrained_vals_backup = [],
                stochastic_unconstrained_grads_backup = [],
                log_prob = uninitialized X\<rparr>
      in
      case support_loop (sorted_list_of_fset supp) s0 of
        (Some e, s1) \<Rightarrow> (Some e, s1)
      | (None, s1) \<Rightarrow>
          (let s2 = s1\<lparr>graph := fst (initialize_values X (ordered_support s1) (graph s1) gen)\<rparr>;
               s3 = update_backgrad X s2;
               s4 = partition_loop (ordered_support s3) s3;
               s5 = flat_size_loop (stochastic_nodes s4) s4
           in
           case backup_unconstrained_values s5 of
             (Some e, s6) \<Rightarrow> (Some e, s6)
           | (None, s6) \<Rightarrow>
               (case backup_unconstrained_grads s6 of
                  (Some e, s7) \<Rightarrow> (Some e, s7)
                | (None, s7) \<Rightarrow> (None, update_log_prob X s7))))"

subsection \<open>Well-formed states\<close>

text \<open>The number of vector elements one unconstrained value takes, and those elements.\<close>

definition flat_width :: "'d NodeValue \<Rightarrow> nat" where
  "flat_width v =
     (if variable_type v = VariableType.SCALAR then 1 else matrix_size (nv_matrix v))"

definition flat_elements :: "'d NodeValue \<Rightarrow> 'd list" where
  "flat_elements v =
     (if variable_type v = VariableType.SCALAR then [nv_double v] else matrix_data (nv_matrix v))"

definition total_width :: "'d Node list \<Rightarrow> nat list \<Rightarrow> nat" where
  "total_width g ps = sum_list (map (\<lambda>p. flat_width (get_unconstrained_value (g ! p))) ps)"

text \<open>
  What construction establishes about the stochastic nodes: they are distinct nodes of
  the graph, each backup sequence has one slot per node, and \<open>flat_size\<close> is the total
  width of their unconstrained values.
\<close>

definition nodes_valid :: "'d GlobalState \<Rightarrow> bool" where
  "nodes_valid s =
     (distinct (stochastic_nodes s) \<and>
      list_all (\<lambda>p. p < length (graph s)) (stochastic_nodes s))"

definition backups_aligned :: "'d GlobalState \<Rightarrow> bool" where
  "backups_aligned s =
     (length (stochastic_unconstrained_vals_backup s) = length (stochastic_nodes s) \<and>
      length (stochastic_unconstrained_grads_backup s) = length (stochastic_nodes s))"

definition flat_size_ok :: "'d GlobalState \<Rightarrow> bool" where
  "flat_size_ok s = (flat_size s = total_width (graph s) (stochastic_nodes s))"

text \<open>
  The unconstrained value as the unflatten step stores it back: a scalar as it was, a
  matrix as a single column holding the same coefficients in the same order.
\<close>

definition as_column :: "'d NodeValue \<Rightarrow> 'd NodeValue" where
  "as_column v =
     (if variable_type v = VariableType.SCALAR then v
      else v\<lparr>nv_matrix := matrix_of_vector (matrix_data (nv_matrix v))\<rparr>)"

text \<open>
  The node after the unflatten step has written the vector elements \<open>w\<close> into its
  unconstrained value and has synchronised the value.
\<close>

definition unflattened_node :: "('d, 'g) Collaborators \<Rightarrow> 'd list \<Rightarrow> 'd Node \<Rightarrow> 'd Node" where
  "unflattened_node X w n =
     (let val = get_unconstrained_value n;
          written = set_unconstrained_value
                      (if variable_type val = VariableType.SCALAR then val\<lparr>nv_double := hd w\<rparr>
                       else val\<lparr>nv_matrix := matrix_of_vector w\<rparr>) n
      in if transform_type written \<noteq> TransformType.NONE
         then get_original_value X written else written)"

text \<open>The nodes after the initialisation pass and the gradient pass of the constructor.\<close>

definition initialized_graph ::
  "('d, 'g) Collaborators \<Rightarrow> 'd Node list \<Rightarrow> nat list \<Rightarrow> 'g \<Rightarrow> 'd Node list" where
  "initialized_graph X g os gen =
     (let g1 = fst (initialize_values X os g gen)
      in map (\<lambda>i. (g1 ! i)\<lparr>back_grad1 := graph_update_backgrad X g1 os i\<rparr>) [0..<length g1])"

text \<open>The node after the revert step has restored the snapshot \<open>v\<close> into it.\<close>

definition reverted_node :: "('d, 'g) Collaborators \<Rightarrow> 'd NodeValue \<Rightarrow> 'd Node \<Rightarrow> 'd Node" where
  "reverted_node X v n = get_original_value X (set_unconstrained_value v n)"

text \<open>
  The value of a node is consistent with its unconstrained value: it is the inverse
  transform of the unconstrained value, and for the identity transform the two are one.
\<close>

definition value_consistent :: "('d, 'g) Collaborators \<Rightarrow> 'd Node \<Rightarrow> bool" where
  "value_consistent X n =
     (if transform_type n = TransformType.NONE then node_value n = get_unconstrained_value n
      else node_value n = transform_inverse X (transform_type n) (get_unconstrained_value n))"

text \<open>
  Modelled from the spec: the construction of the graph is not among the source files.
  Node inputs always reference nodes added earlier, so the inputs of a node have smaller
  indices than the node.
\<close>

definition inputs_earlier :: "'d Node list \<Rightarrow> bool" where
  "inputs_earlier g =
     list_all (\<lambda>i. list_all (\<lambda>j. j < i) (in_nodes (g ! i))) [0..<length g]"

text \<open>Two states with the same stochastic nodes and the same two backup sequences.\<close>

definition same_backups :: "'d GlobalState \<Rightarrow> 'd GlobalState \<Rightarrow> bool" where
  "same_backups s s' =
     (stochastic_nodes s' = stochastic_nodes s \<and>
      stochastic_unconstrained_vals_backup s' = stochastic_unconstrained_vals_backup s \<and>
      stochastic_unconstrained_grads_backup s' = stochastic_unconstrained_grads_backup s)"

text \<open>The flattened unconstrained values of a state, and a vector cut into pieces of given widths.\<close>

definition flattened :: "'d GlobalState \<Rightarrow> 'd list" where
  "flattened s =
     concat (map (\<lambda>p. flat_elements (get_unconstrained_value (graph s ! p))) (stochastic_nodes s))"

fun pieces :: "nat list \<Rightarrow> 'd list \<Rightarrow> 'd list list" where
  "pieces [] v = []"
| "pieces (w # ws) v = take w v # pieces ws (drop w v)"

subsection \<open>A small graph\<close>

text \<open>
  Node 0 is a variable, node 1 a constant, node 2 an operator that uses node 0 twice and
  node 1 once, node 3 a query of node 2.
\<close>

definition example_heap :: "Nodep \<Rightarrow> minibmg_Node" where
  "example_heap p =
     (if p = 0 then VariableNode
      else if p = 1 then ConstantNode
      else if p = 2 then OperatorNode 0 [0, 0, 1]
      else QueryNode 2)"

definition example_graph :: "Nodep list" where
  "example_graph = [0, 1, 2, 3]"

subsection \<open>A small model\<close>

text \<open>
  Doubles are integers here.  Nodes 0 and 1 are constants outside the support; nodes 2, 3
  and 5 are unobserved stochastic nodes, a scalar, a vector of three and a scalar with a
  transform; node 4 is a deterministic operator; node 6 is an observed stochastic node.
\<close>

definition scalar_value :: "int \<Rightarrow> int NodeValue" where
  "scalar_value x = \<lparr>variable_type = VariableType.SCALAR, nv_double = x, nv_matrix = []\<rparr>"

definition matrix_value :: "int MatrixXd \<Rightarrow> int NodeValue" where
  "matrix_value m = \<lparr>variable_type = VariableType.OTHER_VARIABLE 0, nv_double = 0, nv_matrix = m\<rparr>"

definition zero_grad :: "int DoubleMatrix" where
  "zero_grad = \<lparr>dm_double = 0, dm_matrix = []\<rparr>"

definition example_node ::
  "bool \<Rightarrow> bool \<Rightarrow> NodeType \<Rightarrow> nat list \<Rightarrow> int NodeValue \<Rightarrow> TransformType \<Rightarrow> int Node" where
  "example_node obs sto ty ins v tr =
     \<lparr>is_observed = obs, stochastic = sto, node_type = ty, in_nodes = ins, node_value = v,
      unconstrained_value = v, transform_type = tr, back_grad1 = zero_grad\<rparr>"

definition example_nodes :: "int Node list" where
  "example_nodes =
     [example_node False False (NodeType.OTHER_NODE 0) [] (scalar_value 7) TransformType.NONE,
      example_node False False (NodeType.OTHER_NODE 0) [] (scalar_value 8) TransformType.NONE,
      example_node False True NodeType.OPERATOR [0] (scalar_value 0) TransformType.NONE,
      example_node False True NodeType.OPERATOR [0, 1] (matrix_value [[1, 2, 3]])
        TransformType.NONE,
      example_node False False NodeType.OPERATOR [2, 3] (scalar_value 0) TransformType.NONE,
      example_node False True NodeType.OPERATOR [4] (scalar_value 0)
        (TransformType.OTHER_TRANSFORM 0),
      example_node True True NodeType.OPERATOR [5] (scalar_value 9) TransformType.NONE]"

definition example_supp :: "nat fset" where
  "example_supp = {|6, 4, 2, 3, 5|}"

text \<open>
  Evaluation keeps the shape of a value and draws the scalar from the generator, a
  counter; the transform subtracts ten and its inverse adds ten.
\<close>

definition example_collaborators :: "(int, nat) Collaborators" where
  "example_collaborators =
     \<lparr>eval = (\<lambda>g p gen. ((node_value (g ! p))\<lparr>nv_double := int gen\<rparr>, Suc gen)),
      transform_apply = (\<lambda>t v. v\<lparr>nv_double := nv_double v - 10\<rparr>),
      transform_inverse = (\<lambda>t v. v\<lparr>nv_double := nv_double v + 10\<rparr>),
      graph_update_backgrad = (\<lambda>g os i. (back_grad1 (g ! i))\<lparr>dm_double := 1\<rparr>),
      graph_full_log_prob = (\<lambda>g os. 0),
      plus_double = (+),
      uninitialized = 0\<rparr>"

definition example_state :: "int GlobalState" where
  "example_state = snd (GlobalState_init example_collaborators example_nodes example_supp 20)"

text \<open>A graph of one unobserved stochastic node whose value has one row and two columns.\<close>

definition row_nodes :: "int Node list" where
  "row_nodes =
     [example_node False True NodeType.OPERATOR [] (matrix_value [[1], [2]]) TransformType.NONE]"

definition row_state :: "int GlobalState" where
  "row_state = snd (GlobalState_init example_collaborators row_nodes {|0|} 20)"

subsection \<open>Whole-number doubles\<close>

text \<open>
  A double that is a whole number, represented by the integer it denotes.  A double has
  53 significant bits; the sum of two doubles is the exact sum rounded to the nearest
  double, a tie going to the even significand (IEEE 754, the default rounding of C++
  \<open>double\<close> addition; sums too large for a double are not modelled).  \<open>excess_bits a\<close> is
  the number of low bits of \<open>a\<close> that do not fit.
\<close>

function excess_bits :: "nat \<Rightarrow> nat" where
  "excess_bits a = (if a < 2 ^ 53 then 0 else Suc (excess_bits (a div 2)))"
  by pat_completeness auto
termination
  by (relation "measure id") auto

declare excess_bits.simps [simp del]

definition round_to_double :: "int \<Rightarrow> int" where
  "round_to_double n =
     (let a = nat \<bar>n\<bar>;
          e = excess_bits a;
          q = a div 2 ^ e;
          r = a mod 2 ^ e;
          q' = (if 2 * r < 2 ^ e then q
                else if 2 ^ e < 2 * r then q + 1
                else if even q then q else q + 1)
      in sgn n * int (q' * 2 ^ e))"

definition double_add :: "int \<Rightarrow> int \<Rightarrow> int" where
  "double_add a b = round_to_double (a + b)"

definition double_collaborators :: "(int, nat) Collaborators" where
  "double_collaborators = example_collaborators\<lparr>plus_double := double_add\<rparr>"

text \<open>One unobserved stochastic scalar node; the generator makes its value \<open>2 ^ 53\<close>.\<close>

definition big_nodes :: "int Node list" where
  "big_nodes =
     [example_node False True NodeType.OPERATOR [] (scalar_value 0) TransformType.NONE]"

definition big_state :: "int GlobalState" where
  "big_state = snd (GlobalState_init double_collaborators big_nodes {|0|} 9007199254740992)"

section \<open>Properties of the out-nodes index\<close>

lemma push_back_all_ok:
  "set ins \<subseteq> dom d \<Longrightarrow>
   push_back_all node ins d =
     Inr (\<lambda>A. map_option (\<lambda>l. l @ replicate (count_list ins A) node) (d A))"
proof (induction ins arbitrary: d)
  case Nil
  have "(\<lambda>A. map_option (\<lambda>l. l) (d A)) = d"
    by (rule ext) (simp add: option.map_ident)
  then show ?case by simp
next
  case (Cons i rest)
  from Cons.prems obtain l where l: "d i = Some l" by auto
  let ?d1 = "d(i \<mapsto> l @ [node])"
  from Cons.prems have "set rest \<subseteq> dom ?d1" by auto
  then have "push_back_all node rest ?d1 =
     Inr (\<lambda>A. map_option (\<lambda>l. l @ replicate (count_list rest A) node) (?d1 A))"
    by (rule Cons.IH)
  moreover have "(\<lambda>A. map_option (\<lambda>l. l @ replicate (count_list rest A) node) (?d1 A))
     = (\<lambda>A. map_option (\<lambda>l. l @ replicate (count_list (i # rest) A) node) (d A))"
    by (rule ext) (simp add: l replicate_app_Cons_same)
  ultimately show ?case by (simp add: for_node_def l)
qed

lemma create_node_ok:
  "set (declared_inputs (H node)) \<subseteq> dom d \<Longrightarrow>
   create_node H node d =
     Inr (\<lambda>A. map_option (\<lambda>l. l @ replicate (count_list (declared_inputs (H node)) A) node) (d A))"
proof (cases "H node")
  case ConstantNode
  have "(\<lambda>A. map_option (\<lambda>l. l) (d A)) = d" by (rule ext) (simp add: option.map_ident)
  with ConstantNode show ?thesis by (simp add: create_node_def)
next
  case VariableNode
  have "(\<lambda>A. map_option (\<lambda>l. l) (d A)) = d" by (rule ext) (simp add: option.map_ident)
  with VariableNode show ?thesis by (simp add: create_node_def)
next
  case (QueryNode i)
  assume "set (declared_inputs (H node)) \<subseteq> dom d"
  then have "push_back_all node [i] d =
     Inr (\<lambda>A. map_option (\<lambda>l. l @ replicate (count_list [i] A) node) (d A))"
    using QueryNode by (intro push_back_all_ok) simp
  with QueryNode show ?thesis
    by (simp add: create_node_def split: sum.splits)
next
  case (OperatorNode k ins)
  assume "set (declared_inputs (H node)) \<subseteq> dom d"
  with OperatorNode show ?thesis
    by (simp add: create_node_def push_back_all_ok)
qed

lemma consumers_Cons:
  "consumers H (B # g) A = replicate (count_list (declared_inputs (H B)) A) B @ consumers H g A"
  by (simp add: consumers_def)

lemma count_list_0: "A \<notin> set xs \<Longrightarrow> count_list xs A = 0"
  by (induction xs) auto

lemma create_loop_ok:
  "inputs_precede H seen g \<Longrightarrow> dom d = set seen \<Longrightarrow>
   create_loop H g d =
     Inr (\<lambda>A. if A \<in> set seen then map_option (\<lambda>l. l @ consumers H g A) (d A)
               else if A \<in> set g then Some (consumers H g A) else None)"
proof (induction g arbitrary: seen d)
  case Nil
  have "d A = (if A \<in> set seen then map_option (\<lambda>l. l @ consumers H [] A) (d A)
               else if A \<in> set [] then Some (consumers H [] A) else None)" for A
    using Nil.prems(2) by (auto simp: consumers_def option.map_ident domIff)
  then show ?case
    unfolding create_loop.simps by (intro arg_cong [where f = Inr] ext)
next
  case (Cons node rest)
  let ?d0 = "d(node \<mapsto> [])"
  let ?ins = "declared_inputs (H node)"
  let ?d1 = "\<lambda>A. map_option (\<lambda>l. l @ replicate (count_list ?ins A) node) (?d0 A)"
  from Cons.prems have fresh: "node \<notin> set seen"
    and ins: "set ?ins \<subseteq> set (node # seen)"
    and rest: "inputs_precede H (node # seen) rest"
    by (auto simp: list_all_iff)
  have dom0: "dom ?d0 = set (node # seen)" using Cons.prems(2) by auto
  have step: "create_node H node ?d0 = Inr ?d1"
    using ins dom0 by (intro create_node_ok) simp
  have dom1: "dom ?d1 = set (node # seen)"
    using dom0 by (auto simp: dom_def)
  have IH: "create_loop H rest ?d1 =
     Inr (\<lambda>A. if A \<in> set (node # seen) then map_option (\<lambda>l. l @ consumers H rest A) (?d1 A)
               else if A \<in> set rest then Some (consumers H rest A) else None)"
    using rest dom1 by (rule Cons.IH)
  have "(\<lambda>A. if A \<in> set (node # seen) then map_option (\<lambda>l. l @ consumers H rest A) (?d1 A)
               else if A \<in> set rest then Some (consumers H rest A) else None)
      = (\<lambda>A. if A \<in> set seen then map_option (\<lambda>l. l @ consumers H (node # rest) A) (d A)
               else if A \<in> set (node # rest) then Some (consumers H (node # rest) A) else None)"
  proof (rule ext)
    fix A
    show "(if A \<in> set (node # seen) then map_option (\<lambda>l. l @ consumers H rest A) (?d1 A)
               else if A \<in> set rest then Some (consumers H rest A) else None)
      = (if A \<in> set seen then map_option (\<lambda>l. l @ consumers H (node # rest) A) (d A)
               else if A \<in> set (node # rest) then Some (consumers H (node # rest) A) else None)"
    proof (cases "A = node")
      case True
      with fresh show ?thesis by (simp add: consumers_Cons)
    next
      case False
      show ?thesis
      proof (cases "A \<in> set seen")
        case True
        with False show ?thesis
          by (simp add: consumers_Cons option.map_comp comp_def)
      next
        case notseen: False
        with False ins have "A \<notin> set ?ins" by auto
        then have "count_list ?ins A = 0" by (rule count_list_0)
        with False notseen show ?thesis by (simp add: consumers_Cons)
      qed
    qed
  qed
  with step IH show ?case by simp
qed

lemma create_ok:
  "graph_ok H g \<Longrightarrow>
   create H g = Inr (\<lambda>A. if A \<in> set g then Some (consumers H g A) else None)"
  unfolding graph_ok_def create_def
  by (drule create_loop_ok [where d = Map.empty]) simp_all

lemma inputs_precede_distinct: "inputs_precede H seen g \<Longrightarrow> distinct g \<and> set g \<inter> set seen = {}"
  by (induction g arbitrary: seen) fastforce+

lemma count_list_replicate: "count_list (replicate n x) y = (if x = y then n else 0)"
  by (induction n) auto

lemma count_list_consumers:
  "distinct g \<Longrightarrow>
   count_list (consumers H g A) B = (if B \<in> set g then count_list (declared_inputs (H B)) A else 0)"
  by (induction g) (auto simp: consumers_Cons consumers_def count_list_replicate)

lemma out_nodes_present:
  "graph_ok H g \<Longrightarrow> out_nodes H g A = (if A \<in> set g then Inr (consumers H g A) else Inl invalid_argument)"
  by (simp add: out_nodes_def create_ok for_node_def)



lemma push_back_all_dom: "push_back_all node ins d = Inr d' \<Longrightarrow> dom d' = dom d"
proof (induction ins arbitrary: d)
  case Nil
  then show ?case by simp
next
  case (Cons i rest)
  show ?case
  proof (cases "d i")
    case None
    with Cons.prems show ?thesis by (simp add: for_node_def)
  next
    case (Some l)
    with Cons.prems have "push_back_all node rest (d(i \<mapsto> l @ [node])) = Inr d'"
      by (simp add: for_node_def)
    then have "dom d' = dom (d(i \<mapsto> l @ [node]))" by (rule Cons.IH)
    also have "\<dots> = dom d" using Some by auto
    finally show ?thesis .
  qed
qed

lemma push_back_all_error: "push_back_all node ins d = Inl e \<Longrightarrow> e = invalid_argument"
proof (induction ins arbitrary: d)
  case Nil
  then show ?case by simp
next
  case (Cons i rest)
  then show ?case
    by (cases "d i") (auto simp: for_node_def)
qed

lemma create_node_dom: "create_node H node d = Inr d' \<Longrightarrow> dom d' = dom d"
proof (cases "H node")
  case (QueryNode i)
  assume "create_node H node d = Inr d'"
  with QueryNode have "push_back_all node [i] d = Inr d'"
    by (simp add: create_node_def split: sum.splits)
  then show ?thesis by (rule push_back_all_dom)
next
  case (OperatorNode k ins)
  assume "create_node H node d = Inr d'"
  with OperatorNode have "push_back_all node ins d = Inr d'"
    by (simp add: create_node_def)
  then show ?thesis by (rule push_back_all_dom)
qed (auto simp: create_node_def)

lemma create_node_error: "create_node H node d = Inl e \<Longrightarrow> e = invalid_argument"
  by (cases "H node")
     (auto simp: create_node_def for_node_def dest: push_back_all_error split: option.splits)

lemma create_loop_dom: "create_loop H g d = Inr d' \<Longrightarrow> dom d' = dom d \<union> set g"
proof (induction g arbitrary: d)
  case Nil
  then show ?case by simp
next
  case (Cons node rest)
  show ?case
  proof (cases "create_node H node (d(node \<mapsto> []))")
    case (Inl e)
    with Cons.prems show ?thesis by simp
  next
    case (Inr d1)
    with Cons.prems have "create_loop H rest d1 = Inr d'" by simp
    then have "dom d' = dom d1 \<union> set rest" by (rule Cons.IH)
    moreover from Inr have "dom d1 = dom (d(node \<mapsto> []))" by (rule create_node_dom)
    ultimately show ?thesis by auto
  qed
qed

lemma create_loop_error: "create_loop H g d = Inl e \<Longrightarrow> e = invalid_argument"
proof (induction g arbitrary: d)
  case Nil
  then show ?case by simp
next
  case (Cons node rest)
  then show ?case
    by (cases "create_node H node (d(node \<mapsto> []))")
       (auto dest: create_node_error)
qed

lemma out_nodes_error: "out_nodes H g node = Inl e \<Longrightarrow> e = invalid_argument"
  by (cases "create H g")
     (auto simp: out_nodes_def create_def for_node_def dest: create_loop_error split: option.splits)

lemma out_nodes_absent: "node \<notin> set g \<Longrightarrow> out_nodes H g node = Inl invalid_argument"
proof (cases "create H g")
  case (Inl e)
  then show ?thesis
    by (auto simp: out_nodes_def create_def dest: create_loop_error)
next
  case (Inr d)
  assume "node \<notin> set g"
  moreover from Inr have "dom d = set g"
    by (auto simp: create_def dest: create_loop_dom)
  ultimately have "d node = None" by (auto simp: domIff)
  with Inr show ?thesis by (simp add: out_nodes_def for_node_def)
qed

text \<open>
  Claim C7.  In a graph as the graph class hands it out, for nodes \<open>A\<close> and \<open>B\<close>
  of the graph, \<open>out_nodes\<close> returns for \<open>A\<close> a list in which \<open>B\<close> occurs exactly as
  often as \<open>A\<close> occurs in the declared input list of \<open>B\<close> (none for a constant or a
  variable, one for a query, one per occurrence for an operator), and the list is in
  the order in which the iteration over the graph meets the consumers.
\<close>

theorem out_nodes_duality:
  assumes "graph_ok H g" and "A \<in> set g" and "B \<in> set g"
  shows "\<exists>outs. out_nodes H g A = Inr outs \<and>
           count_list outs B = count_list (declared_inputs (H B)) A \<and>
           outs = consumers H g A"
proof -
  from assms(1) have "distinct g"
    unfolding graph_ok_def by (blast dest: inputs_precede_distinct)
  then have "count_list (consumers H g A) B = count_list (declared_inputs (H B)) A"
    using assms(3) by (simp add: count_list_consumers)
  with assms(1,2) show ?thesis by (simp add: out_nodes_present)
qed

lemma example_graph_ok: "graph_ok example_heap example_graph"
  by (simp add: graph_ok_def example_graph_def example_heap_def)

theorem out_nodes_duality_witness:
  "graph_ok example_heap example_graph \<and> 0 \<in> set example_graph \<and> 2 \<in> set example_graph \<and>
   out_nodes example_heap example_graph 0 = Inr [2, 2] \<and>
   count_list (declared_inputs (example_heap 2)) 0 = 2"
proof -
  have mem: "0 \<in> set example_graph" "2 \<in> set example_graph"
    by (simp_all add: example_graph_def)
  have "consumers example_heap example_graph 0 = [2, 2]"
    by (simp add: consumers_def example_graph_def example_heap_def)
  moreover have "count_list (declared_inputs (example_heap 2)) 0 = 2"
    by (simp add: example_heap_def)
  ultimately show ?thesis
    using out_nodes_duality [OF example_graph_ok mem] mem example_graph_ok by simp
qed

text \<open>
  Claim C8.  \<open>out_nodes\<close> fails with \<open>invalid_argument\<close> (node not in graph) for every
  node that is not in the graph; it raises no other error; and on a graph as the graph
  class hands it out it fails for no node of the graph.
\<close>

theorem out_nodes_not_found:
  "(node \<notin> set g \<longrightarrow> out_nodes H g node = Inl invalid_argument) \<and>
   (\<forall>e. out_nodes H g node = Inl e \<longrightarrow> e = invalid_argument) \<and>
   (graph_ok H g \<longrightarrow> (\<exists>e. out_nodes H g node = Inl e) = (node \<notin> set g))"
proof (intro conjI impI allI)
  assume "node \<notin> set g"
  then show "out_nodes H g node = Inl invalid_argument" by (rule out_nodes_absent)
next
  fix e
  assume "out_nodes H g node = Inl e"
  then show "e = invalid_argument" by (rule out_nodes_error)
next
  assume "graph_ok H g"
  then have "out_nodes H g node =
      (if node \<in> set g then Inr (consumers H g node) else Inl invalid_argument)"
    by (rule out_nodes_present)
  then show "(\<exists>e. out_nodes H g node = Inl e) = (node \<notin> set g)" by simp
qed

theorem out_nodes_not_found_witness:
  "7 \<notin> set example_graph \<and> graph_ok example_heap example_graph \<and>
   out_nodes example_heap example_graph 7 = Inl invalid_argument \<and>
   (\<exists>outs. out_nodes example_heap example_graph 3 = Inr outs)"
proof -
  have absent: "7 \<notin> set example_graph" and present: "3 \<in> set example_graph"
    by (simp_all add: example_graph_def)
  from out_nodes_not_found [of 3 example_graph example_heap] present example_graph_ok
  have "\<exists>outs. out_nodes example_heap example_graph 3 = Inr outs"
    by (cases "out_nodes example_heap example_graph 3") auto
  with out_nodes_not_found [of 7 example_graph example_heap] absent example_graph_ok
  show ?thesis by simp
qed

section \<open>Properties of the global inference state\<close>

lemma flat_width_elements: "flat_width v = length (flat_elements v)"
  by (simp add: flat_width_def flat_elements_def matrix_size_def matrix_data_def)

lemma total_width_Nil [simp]: "total_width g [] = 0"
  by (simp add: total_width_def)

lemma total_width_Cons [simp]:
  "total_width g (p # ps) = flat_width (get_unconstrained_value (g ! p)) + total_width g ps"
  by (simp add: total_width_def)

lemma total_width_concat:
  "total_width g ps = length (concat (map (\<lambda>p. flat_elements (get_unconstrained_value (g ! p))) ps))"
  by (induction ps) (simp_all add: flat_width_elements)

lemma write_segment_length:
  "i + length w \<le> length v \<Longrightarrow> length (write_segment i w v) = length v"
  by (simp add: write_segment_def)

lemma get_flattened_values_loop_ok:
  "i + total_width g ps \<le> length fv \<Longrightarrow>
   get_flattened_values_loop g ps i fv =
     (None, take i fv @ concat (map (\<lambda>p. flat_elements (get_unconstrained_value (g ! p))) ps)
              @ drop (i + total_width g ps) fv)"
proof (induction ps arbitrary: i fv)
  case Nil
  then show ?case by simp
next
  case (Cons p ps)
  let ?val = "get_unconstrained_value (g ! p)"
  show ?case
  proof (cases "variable_type ?val = VariableType.SCALAR")
    case True
    with Cons.prems have i: "i < length fv" and rest: "(i + 1) + total_width g ps \<le> length (fv[i := nv_double ?val])"
      by (simp_all add: flat_width_def)
    have upd: "fv[i := nv_double ?val] = take i fv @ [nv_double ?val] @ drop (Suc i) fv"
      using i by (simp add: upd_conv_take_nth_drop)
    have "take (i + 1) (fv[i := nv_double ?val]) = take i fv @ [nv_double ?val]"
      using i by (simp add: upd)
    moreover have "drop (i + 1 + total_width g ps) (fv[i := nv_double ?val])
        = drop (i + 1 + total_width g ps) fv"
      by simp
    ultimately show ?thesis
      using True i Cons.IH [OF rest]
      by (simp add: flat_width_def flat_elements_def Let_def add.assoc)
  next
    case False
    let ?w = "matrix_data (nv_matrix ?val)"
    have len: "length ?w = matrix_size (nv_matrix ?val)"
      by (simp add: matrix_size_def matrix_data_def)
    from False Cons.prems have fit: "i + length ?w \<le> length fv"
      by (simp add: flat_width_def len)
    from False Cons.prems
    have rest: "(i + matrix_size (nv_matrix ?val)) + total_width g ps \<le> length (write_segment i ?w fv)"
      using fit by (simp add: flat_width_def write_segment_length)
    have "take (i + length ?w) (write_segment i ?w fv) = take i fv @ ?w"
      using fit by (simp add: write_segment_def)
    moreover have "drop (i + length ?w + total_width g ps) (write_segment i ?w fv)
        = drop (i + length ?w + total_width g ps) fv"
      using fit by (simp add: write_segment_def add.commute add.left_commute)
    ultimately show ?thesis
      using False fit Cons.IH [OF rest]
      by (simp add: flat_width_def flat_elements_def Let_def len [symmetric] add.assoc)
  qed
qed

lemma resize_length [simp]: "length (resize u n v) = n"
  by (simp add: resize_def)

lemma get_flattened_unconstrained_values_ok:
  "flat_size_ok s \<Longrightarrow>
   get_flattened_unconstrained_values X s out =
     (None, concat (map (\<lambda>p. flat_elements (get_unconstrained_value (graph s ! p)))
                     (stochastic_nodes s)))"
  unfolding get_flattened_unconstrained_values_def flat_size_ok_def
  by (subst get_flattened_values_loop_ok) simp_all


lemma total_width_cong:
  "(\<And>q. q \<in> set ps \<Longrightarrow> g' ! q = g ! q) \<Longrightarrow> total_width g' ps = total_width g ps"
  by (simp add: total_width_def cong: map_cong)

lemma set_flattened_values_loop_ok:
  assumes "distinct ps" and "\<forall>p\<in>set ps. p < length g" and "i + total_width g ps \<le> length fv"
  shows "\<exists>g'. set_flattened_values_loop X fv ps i g = (None, g') \<and>
           length g' = length g \<and>
           (\<forall>q. q \<notin> set ps \<longrightarrow> g' ! q = g ! q) \<and>
           (\<forall>k<length ps. g' ! (ps ! k) =
              unflattened_node X
                (segment (i + total_width g (take k ps))
                   (flat_width (get_unconstrained_value (g ! (ps ! k)))) fv)
                (g ! (ps ! k)))"
  using assms
proof (induction ps arbitrary: i g)
  case Nil
  then show ?case by simp
next
  case (Cons p ps)
  let ?val = "get_unconstrained_value (g ! p)"
  let ?w = "flat_width ?val"
  let ?n' = "unflattened_node X (segment i ?w fv) (g ! p)"
  let ?g1 = "g[p := ?n']"
  from Cons.prems have p: "p < length g" "p \<notin> set ps" and dist: "distinct ps"
    and valid: "\<forall>q\<in>set ps. q < length ?g1"
    and fit: "i + ?w \<le> length fv"
    by simp_all
  have same: "q \<in> set ps \<Longrightarrow> ?g1 ! q = g ! q" for q
    using p by (auto simp: nth_list_update)
  have tw: "total_width ?g1 qs = total_width g qs" if "set qs \<subseteq> set ps" for qs
    using that same by (intro total_width_cong) auto
  from Cons.prems have room: "(i + ?w) + total_width ?g1 ps \<le> length fv"
    by (simp add: tw add.assoc)
  have step: "set_flattened_values_loop X fv (p # ps) i g =
                set_flattened_values_loop X fv ps (i + ?w) ?g1"
  proof (cases "variable_type ?val = VariableType.SCALAR")
    case True
    with fit have "i < length fv" by (simp add: flat_width_def)
    then have "hd (segment i 1 fv) = fv ! i"
      by (simp add: segment_def hd_drop_conv_nth take_Suc_conv_app_nth)
    with True \<open>i < length fv\<close> show ?thesis
      by (simp add: Let_def flat_width_def unflattened_node_def)
  next
    case False
    with fit show ?thesis
      by (simp add: Let_def flat_width_def unflattened_node_def)
  qed
  from Cons.IH [OF dist valid room] obtain g' where
    run: "set_flattened_values_loop X fv ps (i + ?w) ?g1 = (None, g')"
    and len: "length g' = length ?g1"
    and others: "\<forall>q. q \<notin> set ps \<longrightarrow> g' ! q = ?g1 ! q"
    and written: "\<forall>k<length ps. g' ! (ps ! k) =
        unflattened_node X
          (segment (i + ?w + total_width ?g1 (take k ps))
             (flat_width (get_unconstrained_value (?g1 ! (ps ! k)))) fv)
          (?g1 ! (ps ! k))"
    by blast
  have "g' ! ((p # ps) ! k) =
          unflattened_node X
            (segment (i + total_width g (take k (p # ps)))
               (flat_width (get_unconstrained_value (g ! ((p # ps) ! k)))) fv)
            (g ! ((p # ps) ! k))" if k: "k < length (p # ps)" for k
  proof (cases k)
    case 0
    with others p show ?thesis by simp
  next
    case (Suc k')
    with k have k': "k' < length ps" by simp
    then have "ps ! k' \<in> set ps" by simp
    then have "?g1 ! (ps ! k') = g ! (ps ! k')" by (rule same)
    moreover have "total_width ?g1 (take k' ps) = total_width g (take k' ps)"
      by (rule tw) (rule set_take_subset)
    ultimately show ?thesis
      using written k' Suc by (simp add: add.assoc)
  qed
  moreover have "\<forall>q. q \<notin> set (p # ps) \<longrightarrow> g' ! q = g ! q"
    using others by (auto simp: nth_list_update)
  ultimately show ?case
    using step run len by auto
qed

lemma support_loop_ok:
  "list_all (\<lambda>i. i < length (graph s)) ids \<Longrightarrow>
   support_loop ids s = (None, s\<lparr>ordered_support := ordered_support s @ ids\<rparr>)"
  by (induction ids arbitrary: s) simp_all

lemma support_loop_graph: "graph (snd (support_loop ids s)) = graph s"
  by (induction ids arbitrary: s) simp_all

lemma initialize_values_length [simp]:
  "length (fst (initialize_values X ps g gen)) = length g"
  by (induction ps arbitrary: g gen) (simp_all add: Let_def split: prod.splits)

lemma sync_unconstrained_value_flags [simp]:
  "is_observed (sync_unconstrained_value X n) = is_observed n"
  "stochastic (sync_unconstrained_value X n) = stochastic n"
  "in_nodes (sync_unconstrained_value X n) = in_nodes n"
  "transform_type (sync_unconstrained_value X n) = transform_type n"
  by (simp_all add: sync_unconstrained_value_def)

lemma initialize_values_step:
  "\<exists>n gen1. initialize_values X (p # ps) g gen = initialize_values X ps (g[p := n]) gen1 \<and>
      is_observed n = is_observed (g ! p) \<and> stochastic n = stochastic (g ! p) \<and>
      in_nodes n = in_nodes (g ! p)"
proof (cases "eval X g p gen")
  case (Pair v gen')
  let ?n1 = "if \<not> is_observed (g ! p) then (g ! p)\<lparr>node_value := v\<rparr> else g ! p"
  let ?gen1 = "if \<not> is_observed (g ! p) then gen' else gen"
  let ?n2 = "if stochastic ?n1 \<and> node_type ?n1 = NodeType.OPERATOR
             then sync_unconstrained_value X ?n1 else ?n1"
  have "initialize_values X (p # ps) g gen = initialize_values X ps (g[p := ?n2]) ?gen1"
    using Pair by (simp add: Let_def)
  moreover have "is_observed ?n2 = is_observed (g ! p)" "stochastic ?n2 = stochastic (g ! p)"
    "in_nodes ?n2 = in_nodes (g ! p)"
    by simp_all
  ultimately show ?thesis by blast
qed

lemma initialize_values_flags:
  "is_observed (fst (initialize_values X ps g gen) ! q) = is_observed (g ! q) \<and>
   stochastic (fst (initialize_values X ps g gen) ! q) = stochastic (g ! q) \<and>
   in_nodes (fst (initialize_values X ps g gen) ! q) = in_nodes (g ! q)"
proof (induction ps arbitrary: g gen)
  case Nil
  then show ?case by simp
next
  case (Cons p ps)
  obtain n gen1 where
    step: "initialize_values X (p # ps) g gen = initialize_values X ps (g[p := n]) gen1"
    and n: "is_observed n = is_observed (g ! p)" "stochastic n = stochastic (g ! p)"
      "in_nodes n = in_nodes (g ! p)"
    using initialize_values_step [of X p ps g gen] by (elim exE conjE)
  have "g[p := n] ! q = (if q = p \<and> p < length g then n else g ! q)"
    by (cases "p < length g") (simp_all add: nth_list_update list_update_beyond)
  with n have "is_observed (g[p := n] ! q) = is_observed (g ! q) \<and>
             stochastic (g[p := n] ! q) = stochastic (g ! q) \<and>
             in_nodes (g[p := n] ! q) = in_nodes (g ! q)"
    by simp
  with Cons.IH [of "g[p := n]" gen1] show ?case
    unfolding step by simp
qed

lemma update_backgrad_flags:
  "q < length (graph s) \<Longrightarrow>
   is_observed (graph (update_backgrad X s) ! q) = is_observed (graph s ! q) \<and>
   stochastic (graph (update_backgrad X s) ! q) = stochastic (graph s ! q) \<and>
   in_nodes (graph (update_backgrad X s) ! q) = in_nodes (graph s ! q)"
  by (simp add: update_backgrad_def)

lemma partition_loop_eq:
  "partition_loop ps s =
     s\<lparr>stochastic_nodes := stochastic_nodes s @
          filter (\<lambda>p. stochastic (graph s ! p) \<and> \<not> is_observed (graph s ! p)) ps,
       deterministic_nodes := deterministic_nodes s @
          filter (\<lambda>p. \<not> stochastic (graph s ! p)) ps,
       stochastic_unconstrained_vals_backup := stochastic_unconstrained_vals_backup s @
          map (\<lambda>p. get_unconstrained_value (graph s ! p))
            (filter (\<lambda>p. stochastic (graph s ! p) \<and> \<not> is_observed (graph s ! p)) ps),
       stochastic_unconstrained_grads_backup := stochastic_unconstrained_grads_backup s @
          map (\<lambda>p. back_grad1 (graph s ! p))
            (filter (\<lambda>p. stochastic (graph s ! p) \<and> \<not> is_observed (graph s ! p)) ps)\<rparr>"
  by (induction ps arbitrary: s) (simp_all add: Let_def)

lemma flat_size_loop_eq:
  "flat_size_loop ps s = s\<lparr>flat_size := flat_size s + total_width (graph s) ps\<rparr>"
  by (induction ps arbitrary: s) (simp_all add: Let_def flat_width_def)

lemma backup_values_loop_upt:
  "length (stochastic_unconstrained_vals_backup s) = n \<Longrightarrow>
   length (stochastic_nodes s) = n \<Longrightarrow> k \<le> n \<Longrightarrow>
   backup_values_loop [k..<n] s =
     (None, s\<lparr>stochastic_unconstrained_vals_backup :=
                take k (stochastic_unconstrained_vals_backup s) @
                map (\<lambda>p. get_unconstrained_value (graph s ! p)) (drop k (stochastic_nodes s))\<rparr>)"
proof (induction "n - k" arbitrary: k s)
  case 0
  then show ?case by simp
next
  case (Suc m)
  then have k: "k < n" and m: "m = n - Suc k" by simp_all
  let ?x = "get_unconstrained_value (graph s ! (stochastic_nodes s ! k))"
  let ?s1 = "s\<lparr>stochastic_unconstrained_vals_backup :=
                 (stochastic_unconstrained_vals_backup s)[k := ?x]\<rparr>"
  have "backup_values_loop [Suc k..<n] ?s1 =
     (None, ?s1\<lparr>stochastic_unconstrained_vals_backup :=
                take (Suc k) (stochastic_unconstrained_vals_backup ?s1) @
                map (\<lambda>p. get_unconstrained_value (graph ?s1 ! p)) (drop (Suc k) (stochastic_nodes ?s1))\<rparr>)"
    using Suc.prems k by (intro Suc.hyps(1) m) simp_all
  moreover have "take (Suc k) ((stochastic_unconstrained_vals_backup s)[k := ?x])
      = take k (stochastic_unconstrained_vals_backup s) @ [?x]"
    using Suc.prems k by (simp add: take_Suc_conv_app_nth)
  moreover have "drop k (stochastic_nodes s) = stochastic_nodes s ! k # drop (Suc k) (stochastic_nodes s)"
    using Suc.prems k by (simp add: Cons_nth_drop_Suc)
  ultimately show ?case
    using Suc.prems k by (simp add: upt_conv_Cons)
qed

lemma backup_unconstrained_values_ok:
  "length (stochastic_unconstrained_vals_backup s) = length (stochastic_nodes s) \<Longrightarrow>
   backup_unconstrained_values s =
     (None, s\<lparr>stochastic_unconstrained_vals_backup :=
                map (\<lambda>p. get_unconstrained_value (graph s ! p)) (stochastic_nodes s)\<rparr>)"
  unfolding backup_unconstrained_values_def
  by (subst backup_values_loop_upt [where n = "length (stochastic_nodes s)"]) simp_all

lemma backup_grads_loop_upt:
  "length (stochastic_unconstrained_grads_backup s) = n \<Longrightarrow>
   length (stochastic_nodes s) = n \<Longrightarrow> k \<le> n \<Longrightarrow>
   backup_grads_loop [k..<n] s =
     (None, s\<lparr>stochastic_unconstrained_grads_backup :=
                take k (stochastic_unconstrained_grads_backup s) @
                map (\<lambda>p. back_grad1 (graph s ! p)) (drop k (stochastic_nodes s))\<rparr>)"
proof (induction "n - k" arbitrary: k s)
  case 0
  then show ?case by simp
next
  case (Suc m)
  then have k: "k < n" and m: "m = n - Suc k" by simp_all
  let ?x = "back_grad1 (graph s ! (stochastic_nodes s ! k))"
  let ?s1 = "s\<lparr>stochastic_unconstrained_grads_backup :=
                 (stochastic_unconstrained_grads_backup s)[k := ?x]\<rparr>"
  have "backup_grads_loop [Suc k..<n] ?s1 =
     (None, ?s1\<lparr>stochastic_unconstrained_grads_backup :=
                take (Suc k) (stochastic_unconstrained_grads_backup ?s1) @
                map (\<lambda>p. back_grad1 (graph ?s1 ! p)) (drop (Suc k) (stochastic_nodes ?s1))\<rparr>)"
    using Suc.prems k by (intro Suc.hyps(1) m) simp_all
  moreover have "take (Suc k) ((stochastic_unconstrained_grads_backup s)[k := ?x])
      = take k (stochastic_unconstrained_grads_backup s) @ [?x]"
    using Suc.prems k by (simp add: take_Suc_conv_app_nth)
  moreover have "drop k (stochastic_nodes s) = stochastic_nodes s ! k # drop (Suc k) (stochastic_nodes s)"
    using Suc.prems k by (simp add: Cons_nth_drop_Suc)
  ultimately show ?case
    using Suc.prems k by (simp add: upt_conv_Cons)
qed

lemma backup_unconstrained_grads_ok:
  "length (stochastic_unconstrained_grads_backup s) = length (stochastic_nodes s) \<Longrightarrow>
   backup_unconstrained_grads s =
     (None, s\<lparr>stochastic_unconstrained_grads_backup :=
                map (\<lambda>p. back_grad1 (graph s ! p)) (stochastic_nodes s)\<rparr>)"
  unfolding backup_unconstrained_grads_def
  by (subst backup_grads_loop_upt [where n = "length (stochastic_nodes s)"]) simp_all

lemma initialized_graph_length [simp]: "length (initialized_graph X g os gen) = length g"
  by (simp add: initialized_graph_def Let_def)

lemma initialized_graph_flags:
  "q < length g \<Longrightarrow>
   is_observed (initialized_graph X g os gen ! q) = is_observed (g ! q) \<and>
   stochastic (initialized_graph X g os gen ! q) = stochastic (g ! q) \<and>
   in_nodes (initialized_graph X g os gen ! q) = in_nodes (g ! q)"
  by (simp add: initialized_graph_def Let_def initialize_values_flags)

lemma GlobalState_init_ok:
  assumes valid: "\<forall>i. i |\<in>| supp \<longrightarrow> i < length g"
  shows "GlobalState_init X g supp gen =
    (let os = sorted_list_of_fset supp;
         g2 = initialized_graph X g os gen;
         sn = filter (\<lambda>p. stochastic (g ! p) \<and> \<not> is_observed (g ! p)) os
     in (None,
         \<lparr>graph = g2, ordered_support = os, stochastic_nodes = sn,
          deterministic_nodes = filter (\<lambda>p. \<not> stochastic (g ! p)) os,
          flat_size = total_width g2 sn,
          stochastic_unconstrained_vals_backup = map (\<lambda>p. get_unconstrained_value (g2 ! p)) sn,
          stochastic_unconstrained_grads_backup = map (\<lambda>p. back_grad1 (g2 ! p)) sn,
          log_prob = graph_full_log_prob X g2 os\<rparr>))"
proof -
  let ?os = "sorted_list_of_fset supp"
  let ?g2 = "initialized_graph X g ?os gen"
  let ?s0 = "\<lparr>graph = g, ordered_support = [], stochastic_nodes = [],
                deterministic_nodes = [], flat_size = 0,
                stochastic_unconstrained_vals_backup = [],
                stochastic_unconstrained_grads_backup = [],
                log_prob = uninitialized X\<rparr>"
  from valid have all: "list_all (\<lambda>i. i < length (graph ?s0)) ?os"
    by (simp add: list_all_iff)
  have s1: "support_loop ?os ?s0 = (None, ?s0\<lparr>ordered_support := ?os\<rparr>)"
    using support_loop_ok [OF all] by simp
  have in_range: "p \<in> set ?os \<Longrightarrow> p < length g" for p
    using valid by simp
  have f1: "filter (\<lambda>p. stochastic (?g2 ! p) \<and> \<not> is_observed (?g2 ! p)) ?os
          = filter (\<lambda>p. stochastic (g ! p) \<and> \<not> is_observed (g ! p)) ?os"
    by (rule filter_cong) (simp_all add: initialized_graph_flags in_range)
  have f2: "filter (\<lambda>p. \<not> stochastic (?g2 ! p)) ?os = filter (\<lambda>p. \<not> stochastic (g ! p)) ?os"
    by (rule filter_cong) (simp_all add: initialized_graph_flags in_range)
  let ?sn = "filter (\<lambda>p. stochastic (g ! p) \<and> \<not> is_observed (g ! p)) ?os"
  let ?s3 = "\<lparr>graph = ?g2, ordered_support = ?os, stochastic_nodes = [],
                deterministic_nodes = [], flat_size = 0,
                stochastic_unconstrained_vals_backup = [],
                stochastic_unconstrained_grads_backup = [],
                log_prob = uninitialized X\<rparr>"
  let ?s5 = "\<lparr>graph = ?g2, ordered_support = ?os, stochastic_nodes = ?sn,
                deterministic_nodes = filter (\<lambda>p. \<not> stochastic (g ! p)) ?os,
                flat_size = total_width ?g2 ?sn,
                stochastic_unconstrained_vals_backup =
                  map (\<lambda>p. get_unconstrained_value (?g2 ! p)) ?sn,
                stochastic_unconstrained_grads_backup = map (\<lambda>p. back_grad1 (?g2 ! p)) ?sn,
                log_prob = uninitialized X\<rparr>"
  let ?s2 = "\<lparr>graph = fst (initialize_values X ?os g gen), ordered_support = ?os,
                stochastic_nodes = [], deterministic_nodes = [], flat_size = 0,
                stochastic_unconstrained_vals_backup = [],
                stochastic_unconstrained_grads_backup = [],
                log_prob = uninitialized X\<rparr>"
  have s3: "update_backgrad X ?s2 = ?s3"
    by (simp add: update_backgrad_def initialized_graph_def Let_def)
  have s4: "partition_loop ?os ?s3 =
      ?s3\<lparr>stochastic_nodes := ?sn,
           deterministic_nodes := filter (\<lambda>p. \<not> stochastic (g ! p)) ?os,
           stochastic_unconstrained_vals_backup :=
             map (\<lambda>p. get_unconstrained_value (?g2 ! p)) ?sn,
           stochastic_unconstrained_grads_backup := map (\<lambda>p. back_grad1 (?g2 ! p)) ?sn\<rparr>"
    by (simp add: partition_loop_eq f1 f2)
  have s5: "flat_size_loop ?sn (partition_loop ?os ?s3) = ?s5"
    unfolding s4 by (simp add: flat_size_loop_eq)
  have s6: "backup_unconstrained_values ?s5 = (None, ?s5)"
    by (subst backup_unconstrained_values_ok) simp_all
  have s7: "backup_unconstrained_grads ?s5 = (None, ?s5)"
    by (subst backup_unconstrained_grads_ok) simp_all
  have sn: "stochastic_nodes (partition_loop ?os ?s3) = ?sn"
    unfolding s4 by simp
  have "GlobalState_init X g supp gen = (None, update_log_prob X ?s5)"
    unfolding GlobalState_init_def Let_def s1
    by (simp add: s3 sn s5 s6 s7)
  then show ?thesis
    by (simp add: update_log_prob_def Let_def)
qed

lemma get_unconstrained_reverted [simp]:
  "get_unconstrained_value (reverted_node X v n) = v"
  by (simp add: reverted_node_def get_original_value_def set_unconstrained_value_def
      get_unconstrained_value_def)

lemma value_consistent_reverted [simp]: "value_consistent X (reverted_node X v n)"
  by (simp add: value_consistent_def reverted_node_def get_original_value_def
      set_unconstrained_value_def get_unconstrained_value_def)

lemma distinct_nth_notin_drop:
  "distinct xs \<Longrightarrow> k < length xs \<Longrightarrow> xs ! k \<notin> set (drop (Suc k) xs)"
  by (metis Cons_nth_drop_Suc distinct.simps(2) distinct_drop)

lemma revert_values_loop_upt:
  assumes "length (stochastic_unconstrained_vals_backup s) = n"
    and "length (stochastic_nodes s) = n"
    and "distinct (stochastic_nodes s)"
    and "\<forall>p\<in>set (stochastic_nodes s). p < length (graph s)"
    and "k \<le> n"
  shows "\<exists>g'. revert_values_loop X [k..<n] s = (None, s\<lparr>graph := g'\<rparr>) \<and>
           length g' = length (graph s) \<and>
           (\<forall>q. q \<notin> set (drop k (stochastic_nodes s)) \<longrightarrow> g' ! q = graph s ! q) \<and>
           (\<forall>i. k \<le> i \<and> i < n \<longrightarrow>
              g' ! (stochastic_nodes s ! i) =
                reverted_node X (stochastic_unconstrained_vals_backup s ! i)
                  (graph s ! (stochastic_nodes s ! i)))"
  using assms
proof (induction "n - k" arbitrary: k s)
  case 0
  then have "k = n" by simp
  then show ?case by (intro exI [of _ "graph s"]) auto
next
  case (Suc m)
  let ?sn = "stochastic_nodes s"
  let ?vb = "stochastic_unconstrained_vals_backup s"
  let ?p = "?sn ! k"
  let ?r = "reverted_node X (?vb ! k) (graph s ! ?p)"
  let ?s1 = "s\<lparr>graph := (graph s)[?p := ?r]\<rparr>"
  from Suc have k: "k < n" and m: "m = n - Suc k" by simp_all
  from Suc.prems k have p: "?p < length (graph s)" and fresh: "?p \<notin> set (drop (Suc k) ?sn)"
    by (simp_all add: distinct_nth_notin_drop)
  have dropk: "drop k ?sn = ?p # drop (Suc k) ?sn"
    using Suc.prems k by (simp add: Cons_nth_drop_Suc)
  have step: "revert_values_loop X [k..<n] s = revert_values_loop X [Suc k..<n] ?s1"
    using Suc.prems k by (simp add: upt_conv_Cons Let_def reverted_node_def)
  have "\<exists>g'. revert_values_loop X [Suc k..<n] ?s1 = (None, ?s1\<lparr>graph := g'\<rparr>) \<and>
           length g' = length (graph ?s1) \<and>
           (\<forall>q. q \<notin> set (drop (Suc k) (stochastic_nodes ?s1)) \<longrightarrow> g' ! q = graph ?s1 ! q) \<and>
           (\<forall>i. Suc k \<le> i \<and> i < n \<longrightarrow>
              g' ! (stochastic_nodes ?s1 ! i) =
                reverted_node X (stochastic_unconstrained_vals_backup ?s1 ! i)
                  (graph ?s1 ! (stochastic_nodes ?s1 ! i)))"
    using Suc.prems k by (intro Suc.hyps(1) m) simp_all
  then obtain g' where
    run: "revert_values_loop X [Suc k..<n] ?s1 = (None, s\<lparr>graph := g'\<rparr>)"
    and len: "length g' = length (graph s)"
    and others: "\<forall>q. q \<notin> set (drop (Suc k) ?sn) \<longrightarrow> g' ! q = (graph s)[?p := ?r] ! q"
    and restored: "\<forall>i. Suc k \<le> i \<and> i < n \<longrightarrow>
              g' ! (?sn ! i) = reverted_node X (?vb ! i) ((graph s)[?p := ?r] ! (?sn ! i))"
    by auto
  have "g' ! (?sn ! i) = reverted_node X (?vb ! i) (graph s ! (?sn ! i))"
    if i: "k \<le> i" "i < n" for i
  proof (cases "i = k")
    case True
    with others fresh p show ?thesis by simp
  next
    case False
    with i have "Suc k \<le> i" by simp
    moreover from False i k Suc.prems have "?sn ! i \<noteq> ?p"
      by (simp add: nth_eq_iff_index_eq)
    ultimately show ?thesis using restored i by simp
  qed
  moreover have "\<forall>q. q \<notin> set (drop k ?sn) \<longrightarrow> g' ! q = graph s ! q"
    using others by (simp add: dropk)
  ultimately show ?case
    using step run len by auto
qed

lemma revert_unconstrained_values_ok:
  assumes "nodes_valid s" and "backups_aligned s"
  shows "\<exists>g'. revert_unconstrained_values X s = (None, s\<lparr>graph := g'\<rparr>) \<and>
           length g' = length (graph s) \<and>
           (\<forall>q. q \<notin> set (stochastic_nodes s) \<longrightarrow> g' ! q = graph s ! q) \<and>
           (\<forall>i<length (stochastic_nodes s).
              g' ! (stochastic_nodes s ! i) =
                reverted_node X (stochastic_unconstrained_vals_backup s ! i)
                  (graph s ! (stochastic_nodes s ! i)))"
proof -
  from assms have
    "\<exists>g'. revert_values_loop X [0..<length (stochastic_nodes s)] s = (None, s\<lparr>graph := g'\<rparr>) \<and>
           length g' = length (graph s) \<and>
           (\<forall>q. q \<notin> set (drop 0 (stochastic_nodes s)) \<longrightarrow> g' ! q = graph s ! q) \<and>
           (\<forall>i. 0 \<le> i \<and> i < length (stochastic_nodes s) \<longrightarrow>
              g' ! (stochastic_nodes s ! i) =
                reverted_node X (stochastic_unconstrained_vals_backup s ! i)
                  (graph s ! (stochastic_nodes s ! i)))"
    by (intro revert_values_loop_upt)
       (simp_all add: nodes_valid_def backups_aligned_def list_all_iff)
  then show ?thesis
    by (simp add: revert_unconstrained_values_def)
qed

text \<open>Fields no operation touches.\<close>

lemma revert_values_loop_fields:
  "revert_values_loop X ids s = (e, s') \<Longrightarrow>
   stochastic_nodes s' = stochastic_nodes s \<and>
   stochastic_unconstrained_vals_backup s' = stochastic_unconstrained_vals_backup s \<and>
   stochastic_unconstrained_grads_backup s' = stochastic_unconstrained_grads_backup s"
  by (induction ids arbitrary: s) (auto simp: Let_def split: if_splits)

lemma revert_grads_loop_fields:
  "revert_grads_loop ids s = (e, s') \<Longrightarrow>
   stochastic_nodes s' = stochastic_nodes s \<and>
   stochastic_unconstrained_vals_backup s' = stochastic_unconstrained_vals_backup s \<and>
   stochastic_unconstrained_grads_backup s' = stochastic_unconstrained_grads_backup s"
  by (induction ids arbitrary: s) (auto simp: Let_def split: if_splits)

lemma revert_grads_loop_no_error:
  "\<forall>i\<in>set ids. i < length (stochastic_unconstrained_grads_backup s) \<Longrightarrow>
   fst (revert_grads_loop ids s) = None"
proof (induction ids arbitrary: s)
  case Nil
  then show ?case by simp
next
  case (Cons i ids)
  let ?p = "stochastic_nodes s ! i"
  let ?s1 = "s\<lparr>graph := (graph s)
                [?p := (graph s ! ?p)\<lparr>back_grad1 := stochastic_unconstrained_grads_backup s ! i\<rparr>]\<rparr>"
  from Cons.prems have "\<forall>j\<in>set ids. j < length (stochastic_unconstrained_grads_backup ?s1)"
    by simp
  then have "fst (revert_grads_loop ids ?s1) = None" by (rule Cons.IH)
  with Cons.prems show ?case by (simp add: Let_def)
qed

lemma set_flattened_fields:
  "set_flattened_unconstrained_values X v s = (e, s') \<Longrightarrow>
   stochastic_nodes s' = stochastic_nodes s \<and>
   stochastic_unconstrained_vals_backup s' = stochastic_unconstrained_vals_backup s \<and>
   stochastic_unconstrained_grads_backup s' = stochastic_unconstrained_grads_backup s"
  by (auto simp: set_flattened_unconstrained_values_def split: if_splits prod.splits)

lemma add_to_fields:
  "add_to_stochastic_unconstrained_nodes X v s = (e, s') \<Longrightarrow>
   stochastic_nodes s' = stochastic_nodes s \<and>
   stochastic_unconstrained_vals_backup s' = stochastic_unconstrained_vals_backup s \<and>
   stochastic_unconstrained_grads_backup s' = stochastic_unconstrained_grads_backup s"
  by (auto simp: add_to_stochastic_unconstrained_nodes_def
      split: if_splits prod.splits option.splits dest: set_flattened_fields)

text \<open>
  Every operation keeps the stochastic nodes and the length of the node vector, so a
  state reached from a constructed one by any sequence of operations still has distinct
  stochastic nodes that are nodes of the graph.
\<close>

lemma backup_values_loop_frame:
  "backup_values_loop ids s = (e, s') \<Longrightarrow>
   stochastic_nodes s' = stochastic_nodes s \<and> graph s' = graph s"
  by (induction ids arbitrary: s) (auto split: if_splits)

lemma backup_grads_loop_frame:
  "backup_grads_loop ids s = (e, s') \<Longrightarrow>
   stochastic_nodes s' = stochastic_nodes s \<and> graph s' = graph s"
  by (induction ids arbitrary: s) (auto split: if_splits)

lemma revert_values_loop_length:
  "revert_values_loop X ids s = (e, s') \<Longrightarrow> length (graph s') = length (graph s)"
  by (induction ids arbitrary: s) (auto simp: Let_def split: if_splits)

lemma revert_grads_loop_length:
  "revert_grads_loop ids s = (e, s') \<Longrightarrow> length (graph s') = length (graph s)"
  by (induction ids arbitrary: s) (auto simp: Let_def split: if_splits)

lemma set_flattened_values_loop_length:
  "set_flattened_values_loop X fv ps i g = (e, g') \<Longrightarrow> length g' = length g"
proof (induction ps arbitrary: i g)
  case Nil
  then show ?case by simp
next
  case (Cons p ps)
  show ?case
  proof (cases "variable_type (get_unconstrained_value (g ! p)) = VariableType.SCALAR")
    case True
    with Cons.prems show ?thesis
      by (auto simp: Let_def split: if_splits dest!: Cons.IH)
  next
    case False
    with Cons.prems show ?thesis
      by (auto simp: Let_def split: if_splits dest!: Cons.IH)
  qed
qed

lemma set_flattened_length:
  "set_flattened_unconstrained_values X v s = (e, s') \<Longrightarrow> length (graph s') = length (graph s)"
  by (auto simp: set_flattened_unconstrained_values_def
      split: if_splits prod.splits dest: set_flattened_values_loop_length)

lemma add_to_length:
  "add_to_stochastic_unconstrained_nodes X v s = (e, s') \<Longrightarrow>
   length (graph s') = length (graph s)"
  by (auto simp: add_to_stochastic_unconstrained_nodes_def
      split: if_splits prod.splits option.splits dest: set_flattened_length)

lemma nodes_valid_frame:
  "stochastic_nodes s' = stochastic_nodes s \<Longrightarrow> length (graph s') = length (graph s) \<Longrightarrow>
   nodes_valid s \<Longrightarrow> nodes_valid s'"
  by (simp add: nodes_valid_def)

lemma operations_keep_nodes_valid:
  assumes "nodes_valid s"
  shows "nodes_valid (snd (backup_unconstrained_values s))"
    and "nodes_valid (snd (backup_unconstrained_grads s))"
    and "nodes_valid (snd (revert_unconstrained_values X s))"
    and "nodes_valid (snd (revert_unconstrained_grads s))"
    and "nodes_valid (snd (set_flattened_unconstrained_values X v s))"
    and "nodes_valid (snd (add_to_stochastic_unconstrained_nodes X v s))"
    and "nodes_valid (update_log_prob X s)"
    and "nodes_valid (update_backgrad X s)"
proof -
  have "stochastic_nodes (snd (backup_unconstrained_values s)) = stochastic_nodes s \<and>
        graph (snd (backup_unconstrained_values s)) = graph s"
    unfolding backup_unconstrained_values_def
    by (rule backup_values_loop_frame) (rule prod.collapse [symmetric])
  with assms show "nodes_valid (snd (backup_unconstrained_values s))"
    by (simp add: nodes_valid_def)
  have "stochastic_nodes (snd (backup_unconstrained_grads s)) = stochastic_nodes s \<and>
        graph (snd (backup_unconstrained_grads s)) = graph s"
    unfolding backup_unconstrained_grads_def
    by (rule backup_grads_loop_frame) (rule prod.collapse [symmetric])
  with assms show "nodes_valid (snd (backup_unconstrained_grads s))"
    by (simp add: nodes_valid_def)
  have "stochastic_nodes (snd (revert_unconstrained_values X s)) = stochastic_nodes s"
    "length (graph (snd (revert_unconstrained_values X s))) = length (graph s)"
    unfolding revert_unconstrained_values_def
    using revert_values_loop_fields revert_values_loop_length
    by (metis prod.collapse)+
  then show "nodes_valid (snd (revert_unconstrained_values X s))"
    using assms by (rule nodes_valid_frame)
  have "stochastic_nodes (snd (revert_unconstrained_grads s)) = stochastic_nodes s"
    "length (graph (snd (revert_unconstrained_grads s))) = length (graph s)"
    unfolding revert_unconstrained_grads_def
    using revert_grads_loop_fields revert_grads_loop_length
    by (metis prod.collapse)+
  then show "nodes_valid (snd (revert_unconstrained_grads s))"
    using assms by (rule nodes_valid_frame)
  have "stochastic_nodes (snd (set_flattened_unconstrained_values X v s)) = stochastic_nodes s"
    "length (graph (snd (set_flattened_unconstrained_values X v s))) = length (graph s)"
    using set_flattened_fields set_flattened_length by (metis prod.collapse)+
  then show "nodes_valid (snd (set_flattened_unconstrained_values X v s))"
    using assms by (rule nodes_valid_frame)
  have "stochastic_nodes (snd (add_to_stochastic_unconstrained_nodes X v s)) = stochastic_nodes s"
    "length (graph (snd (add_to_stochastic_unconstrained_nodes X v s))) = length (graph s)"
    using add_to_fields add_to_length by (metis prod.collapse)+
  then show "nodes_valid (snd (add_to_stochastic_unconstrained_nodes X v s))"
    using assms by (rule nodes_valid_frame)
  show "nodes_valid (update_log_prob X s)"
    using assms by (simp add: nodes_valid_def update_log_prob_def)
  show "nodes_valid (update_backgrad X s)"
    using assms by (simp add: nodes_valid_def update_backgrad_def)
qed

lemma support_loop_error:
  "\<not> list_all (\<lambda>i. i < length (graph s)) ids \<Longrightarrow>
   fst (support_loop ids s) = Some index_out_of_range"
  by (induction ids arbitrary: s) auto

lemma GlobalState_init_supp:
  assumes "GlobalState_init X g supp gen = (None, s)"
  shows "\<forall>i. i |\<in>| supp \<longrightarrow> i < length g"
proof (rule ccontr)
  let ?s0 = "\<lparr>graph = g, ordered_support = [], stochastic_nodes = [],
                deterministic_nodes = [], flat_size = 0,
                stochastic_unconstrained_vals_backup = [],
                stochastic_unconstrained_grads_backup = [],
                log_prob = uninitialized X\<rparr>"
  assume "\<not> (\<forall>i. i |\<in>| supp \<longrightarrow> i < length g)"
  then have "\<not> list_all (\<lambda>i. i < length (graph ?s0)) (sorted_list_of_fset supp)"
    by (auto simp: list_all_iff)
  then have "fst (support_loop (sorted_list_of_fset supp) ?s0) = Some index_out_of_range"
    by (rule support_loop_error)
  then have "fst (GlobalState_init X g supp gen) = Some index_out_of_range"
    unfolding GlobalState_init_def Let_def
    by (cases "support_loop (sorted_list_of_fset supp) ?s0") simp
  with assms show False by simp
qed

lemma GlobalState_init_fields:
  assumes "GlobalState_init X g supp gen = (None, s)"
  defines "os \<equiv> sorted_list_of_fset supp"
  defines "g2 \<equiv> initialized_graph X g os gen"
  defines "sn \<equiv> filter (\<lambda>p. stochastic (g ! p) \<and> \<not> is_observed (g ! p)) os"
  shows "graph s = g2" and "ordered_support s = os" and "stochastic_nodes s = sn"
    and "deterministic_nodes s = filter (\<lambda>p. \<not> stochastic (g ! p)) os"
    and "flat_size s = total_width g2 sn"
    and "stochastic_unconstrained_vals_backup s = map (\<lambda>p. get_unconstrained_value (g2 ! p)) sn"
    and "stochastic_unconstrained_grads_backup s = map (\<lambda>p. back_grad1 (g2 ! p)) sn"
    and "log_prob s = graph_full_log_prob X g2 os"
  using assms(1) GlobalState_init_ok [OF GlobalState_init_supp [OF assms(1)], of X gen]
  unfolding os_def g2_def sn_def Let_def by auto

lemma strict_sorted_list_of_fset: "sorted_wrt (<) (sorted_list_of_fset S)"
  by (simp add: sorted_list_of_fset.rep_eq)

lemma GlobalState_init_invariants:
  assumes "GlobalState_init X g supp gen = (None, s)"
  shows "nodes_valid s" and "backups_aligned s" and "flat_size_ok s"
proof -
  note f = GlobalState_init_fields [OF assms]
  have "distinct (sorted_list_of_fset supp)"
    using strict_sorted_list_of_fset [of supp] by (simp add: strict_sorted_iff)
  moreover have "\<forall>p\<in>set (sorted_list_of_fset supp). p < length g"
    using GlobalState_init_supp [OF assms] by simp
  ultimately show "nodes_valid s"
    by (simp add: nodes_valid_def f list_all_iff)
  show "backups_aligned s" by (simp add: backups_aligned_def f)
  show "flat_size_ok s" by (simp add: flat_size_ok_def f)
qed

text \<open>
  Claim C5.  After construction, \<open>ordered_support\<close> holds exactly the nodes that
  \<open>compute_support\<close> returned, so none outside that set, and every input of a node
  of the support that is itself in the support stands strictly before the node.  The
  order rests on the graph's invariant that inputs have smaller indices, and on the
  increasing order in which a \<open>std::set\<close> is traversed.
\<close>

theorem support_minimal_and_ordered:
  assumes "GlobalState_init X g supp gen = (None, s)" and "inputs_earlier g"
  shows "set (ordered_support s) = fset supp \<and>
         (\<forall>k<length (ordered_support s).
            \<forall>j\<in>set (in_nodes (graph s ! (ordered_support s ! k))).
              j |\<in>| supp \<longrightarrow> (\<exists>k'<k. ordered_support s ! k' = j))"
proof -
  let ?os = "sorted_list_of_fset supp"
  note f = GlobalState_init_fields [OF assms(1)]
  have sorted: "sorted_wrt (<) ?os" by (rule strict_sorted_list_of_fset)
  have "\<exists>k'<k. ?os ! k' = j"
    if k: "k < length ?os" and j: "j \<in> set (in_nodes (graph s ! (?os ! k)))" "j |\<in>| supp" for k j
  proof -
    from k have "?os ! k \<in> set ?os" by (rule nth_mem)
    then have range: "?os ! k < length g"
      using GlobalState_init_supp [OF assms(1)] by simp
    then have "in_nodes (graph s ! (?os ! k)) = in_nodes (g ! (?os ! k))"
      by (simp add: f initialized_graph_flags)
    with j assms(2) range have less: "j < ?os ! k"
      by (auto simp: inputs_earlier_def list_all_iff)
    from j(2) have "j \<in> set ?os" by simp
    then obtain k' where k': "k' < length ?os" "?os ! k' = j"
      by (metis in_set_conv_nth)
    have "k' < k"
    proof (rule ccontr)
      assume "\<not> k' < k"
      then have "k = k' \<or> k < k'" by auto
      then have "?os ! k \<le> ?os ! k'"
        using sorted k' by (auto dest: sorted_wrt_nth_less)
      with less k' show False by simp
    qed
    with k' show ?thesis by blast
  qed
  then show ?thesis by (simp add: f)
qed

text \<open>
  Claim C6.  After construction, \<open>stochastic_nodes\<close> is the subsequence of the
  unobserved stochastic nodes of \<open>ordered_support\<close> and \<open>deterministic_nodes\<close> the
  subsequence of its non-stochastic nodes, both in the order of \<open>ordered_support\<close>; an
  observed stochastic node is in neither.
\<close>

theorem partition_pass:
  assumes "GlobalState_init X g supp gen = (None, s)"
  shows "stochastic_nodes s =
           filter (\<lambda>p. stochastic (graph s ! p) \<and> \<not> is_observed (graph s ! p)) (ordered_support s) \<and>
         deterministic_nodes s =
           filter (\<lambda>p. \<not> stochastic (graph s ! p)) (ordered_support s) \<and>
         (\<forall>p\<in>set (ordered_support s).
            stochastic (graph s ! p) \<and> is_observed (graph s ! p) \<longrightarrow>
              p \<notin> set (stochastic_nodes s) \<and> p \<notin> set (deterministic_nodes s))"
proof -
  let ?os = "sorted_list_of_fset supp"
  note f = GlobalState_init_fields [OF assms]
  have range: "p \<in> set ?os \<Longrightarrow> p < length g" for p
    using GlobalState_init_supp [OF assms] by simp
  have sn: "filter (\<lambda>p. stochastic (graph s ! p) \<and> \<not> is_observed (graph s ! p)) ?os
        = filter (\<lambda>p. stochastic (g ! p) \<and> \<not> is_observed (g ! p)) ?os"
    by (rule filter_cong) (simp_all add: f initialized_graph_flags range)
  have dn: "filter (\<lambda>p. \<not> stochastic (graph s ! p)) ?os = filter (\<lambda>p. \<not> stochastic (g ! p)) ?os"
    by (rule filter_cong) (simp_all add: f initialized_graph_flags range)
  have eqs: "stochastic_nodes s =
           filter (\<lambda>p. stochastic (graph s ! p) \<and> \<not> is_observed (graph s ! p)) (ordered_support s)"
    "deterministic_nodes s = filter (\<lambda>p. \<not> stochastic (graph s ! p)) (ordered_support s)"
    using sn dn by (simp_all add: f)
  have "\<forall>p\<in>set (ordered_support s).
            stochastic (graph s ! p) \<and> is_observed (graph s ! p) \<longrightarrow>
              p \<notin> set (stochastic_nodes s) \<and> p \<notin> set (deterministic_nodes s)"
    by (subst eqs(1), subst eqs(2)) simp
  with eqs show ?thesis by blast
qed

text \<open>
  Claim C9.  After construction, \<open>flat_size\<close> is the sum over \<open>stochastic_nodes\<close> of
  one for a scalar unconstrained value and of the number of matrix elements otherwise;
  \<open>get_flattened_unconstrained_values\<close> succeeds, its vector has length \<open>flat_size\<close>,
  and the vector is the elements of the nodes' unconstrained values, node after node.
\<close>

theorem flat_size_consistency:
  assumes "GlobalState_init X g supp gen = (None, s)"
  shows "flat_size s =
           (\<Sum>p\<leftarrow>stochastic_nodes s.
              if variable_type (get_unconstrained_value (graph s ! p)) = VariableType.SCALAR then 1
              else matrix_size (nv_matrix (get_unconstrained_value (graph s ! p)))) \<and>
         (\<exists>flattened_values.
            get_flattened_unconstrained_values X s out = (None, flattened_values) \<and>
            length flattened_values = flat_size s \<and>
            flattened_values =
              concat (map (\<lambda>p. flat_elements (get_unconstrained_value (graph s ! p)))
                        (stochastic_nodes s)))"
proof -
  from assms have ok: "flat_size_ok s" by (rule GlobalState_init_invariants)
  then have "flat_size s = total_width (graph s) (stochastic_nodes s)"
    by (simp add: flat_size_ok_def)
  moreover note get_flattened_unconstrained_values_ok [OF ok, of X out]
  ultimately show ?thesis
    by (simp add: total_width_concat [symmetric]) (simp add: total_width_def flat_width_def)
qed

text \<open>
  Claim C4.  Called with a vector whose length is not \<open>flat_size\<close>,
  \<open>set_flattened_unconstrained_values\<close> and \<open>add_to_stochastic_unconstrained_nodes\<close>
  throw \<open>invalid_argument\<close> and the state, with every node's unconstrained value,
  value and gradient, is as it was.
\<close>

theorem size_mismatch_no_mutation:
  assumes "length v \<noteq> flat_size s"
  shows "set_flattened_unconstrained_values X v s = (Some invalid_argument, s) \<and>
         add_to_stochastic_unconstrained_nodes X v s = (Some invalid_argument, s)"
  using assms
  by (simp add: set_flattened_unconstrained_values_def add_to_stochastic_unconstrained_nodes_def)

lemma segment_concat:
  "k < length xss \<Longrightarrow>
   segment (length (concat (take k xss))) (length (xss ! k)) (concat xss) = xss ! k"
proof -
  assume "k < length xss"
  then have "xss = take k xss @ xss ! k # drop (Suc k) xss"
    by (rule id_take_nth_drop)
  then have "concat xss = concat (take k xss) @ xss ! k @ concat (drop (Suc k) xss)"
    by (metis concat.simps(2) concat_append)
  then show ?thesis by (simp add: segment_def)
qed

lemma get_unconstrained_unflattened:
  "get_unconstrained_value (unflattened_node X (flat_elements (get_unconstrained_value n)) n)
     = as_column (get_unconstrained_value n)"
  by (simp add: unflattened_node_def Let_def flat_elements_def as_column_def
      get_original_value_def set_unconstrained_value_def get_unconstrained_value_def)

lemma set_flattened_unconstrained_values_ok:
  assumes "nodes_valid s" and "flat_size_ok s" and "length fv = flat_size s"
  shows "\<exists>g'. set_flattened_unconstrained_values X fv s = (None, s\<lparr>graph := g'\<rparr>) \<and>
           length g' = length (graph s) \<and>
           (\<forall>q. q \<notin> set (stochastic_nodes s) \<longrightarrow> g' ! q = graph s ! q) \<and>
           (\<forall>k<length (stochastic_nodes s). g' ! (stochastic_nodes s ! k) =
              unflattened_node X
                (segment (total_width (graph s) (take k (stochastic_nodes s)))
                   (flat_width (get_unconstrained_value (graph s ! (stochastic_nodes s ! k)))) fv)
                (graph s ! (stochastic_nodes s ! k)))"
proof -
  from assms have
    "\<exists>g'. set_flattened_values_loop X fv (stochastic_nodes s) 0 (graph s) = (None, g') \<and>
           length g' = length (graph s) \<and>
           (\<forall>q. q \<notin> set (stochastic_nodes s) \<longrightarrow> g' ! q = graph s ! q) \<and>
           (\<forall>k<length (stochastic_nodes s). g' ! (stochastic_nodes s ! k) =
              unflattened_node X
                (segment (0 + total_width (graph s) (take k (stochastic_nodes s)))
                   (flat_width (get_unconstrained_value (graph s ! (stochastic_nodes s ! k)))) fv)
                (graph s ! (stochastic_nodes s ! k)))"
    by (intro set_flattened_values_loop_ok)
       (simp_all add: nodes_valid_def flat_size_ok_def list_all_iff)
  with assms(3) show ?thesis
    by (auto simp: set_flattened_unconstrained_values_def)
qed

text \<open>
  What the round trip through the flattened vector does on every well-formed state: both
  calls succeed, and each stochastic node's unconstrained value comes back with a scalar
  as it was and a matrix stored as a single column of the same coefficients.
\<close>

lemma round_trip_as_column:
  assumes "nodes_valid s" and "flat_size_ok s"
  shows "\<exists>flattened_values s'.
           get_flattened_unconstrained_values X s out = (None, flattened_values) \<and>
           set_flattened_unconstrained_values X flattened_values s = (None, s') \<and>
           (\<forall>p\<in>set (stochastic_nodes s).
              get_unconstrained_value (graph s' ! p) =
                as_column (get_unconstrained_value (graph s ! p)))"
proof -
  let ?sn = "stochastic_nodes s"
  let ?el = "\<lambda>p. flat_elements (get_unconstrained_value (graph s ! p))"
  let ?fv = "concat (map ?el ?sn)"
  have get: "get_flattened_unconstrained_values X s out = (None, ?fv)"
    using assms(2) by (rule get_flattened_unconstrained_values_ok)
  from assms(2) have len: "length ?fv = flat_size s"
    by (simp add: flat_size_ok_def total_width_concat)
  from set_flattened_unconstrained_values_ok [OF assms len, of X] obtain g' where
    set: "set_flattened_unconstrained_values X ?fv s = (None, s\<lparr>graph := g'\<rparr>)"
    and written: "\<forall>k<length ?sn. g' ! (?sn ! k) =
              unflattened_node X
                (segment (total_width (graph s) (take k ?sn))
                   (flat_width (get_unconstrained_value (graph s ! (?sn ! k)))) ?fv)
                (graph s ! (?sn ! k))"
    by blast
  have "get_unconstrained_value (g' ! p) = as_column (get_unconstrained_value (graph s ! p))"
    if "p \<in> set ?sn" for p
  proof -
    from that obtain k where k: "k < length ?sn" "?sn ! k = p"
      by (metis in_set_conv_nth)
    then have "segment (length (concat (take k (map ?el ?sn)))) (length (map ?el ?sn ! k)) ?fv
        = map ?el ?sn ! k"
      by (intro segment_concat) simp
    with k have "segment (total_width (graph s) (take k ?sn))
                   (flat_width (get_unconstrained_value (graph s ! p))) ?fv = ?el p"
      by (simp add: total_width_concat flat_width_elements take_map)
    with written k show ?thesis
      by (auto simp: get_unconstrained_unflattened)
  qed
  with get set show ?thesis by auto
qed

text \<open>
  Claim C2.  After \<open>backup_unconstrained_values\<close>, whatever the nodes are changed to
  (\<open>g'\<close>, any node vector of the same length), \<open>revert_unconstrained_values\<close> succeeds
  and every stochastic node then has the unconstrained value it had at the backup, and
  a value consistent with it under the node's transform.
\<close>

theorem backup_revert_restores:
  assumes "nodes_valid s" and "backups_aligned s" and "length g' = length (graph s)"
  shows "\<exists>s1 s3.
           backup_unconstrained_values s = (None, s1) \<and>
           revert_unconstrained_values X (s1\<lparr>graph := g'\<rparr>) = (None, s3) \<and>
           (\<forall>p\<in>set (stochastic_nodes s).
              get_unconstrained_value (graph s3 ! p) = get_unconstrained_value (graph s ! p) \<and>
              value_consistent X (graph s3 ! p))"
proof -
  let ?sn = "stochastic_nodes s"
  let ?snap = "map (\<lambda>p. get_unconstrained_value (graph s ! p)) ?sn"
  let ?s1 = "s\<lparr>stochastic_unconstrained_vals_backup := ?snap\<rparr>"
  let ?s2 = "?s1\<lparr>graph := g'\<rparr>"
  from assms(2) have backup: "backup_unconstrained_values s = (None, ?s1)"
    by (simp add: backups_aligned_def backup_unconstrained_values_ok)
  from assms have "nodes_valid ?s2" and "backups_aligned ?s2"
    by (simp_all add: nodes_valid_def backups_aligned_def)
  from revert_unconstrained_values_ok [OF this, of X] obtain g3 where
    revert: "revert_unconstrained_values X ?s2 = (None, ?s2\<lparr>graph := g3\<rparr>)"
    and restored: "\<forall>i<length ?sn. g3 ! (?sn ! i) = reverted_node X (?snap ! i) (g' ! (?sn ! i))"
    by auto
  have "get_unconstrained_value (g3 ! p) = get_unconstrained_value (graph s ! p) \<and>
        value_consistent X (g3 ! p)" if "p \<in> set ?sn" for p
  proof -
    from that obtain i where i: "i < length ?sn" "?sn ! i = p"
      by (metis in_set_conv_nth)
    with restored have "g3 ! p = reverted_node X (?snap ! i) (g' ! p)" by auto
    with i show ?thesis by simp
  qed
  with backup revert show ?thesis by auto
qed

lemma same_backups_aligned: "same_backups s s' \<Longrightarrow> backups_aligned s \<Longrightarrow> backups_aligned s'"
  by (simp add: same_backups_def backups_aligned_def)

text \<open>
  Claim C10.  Construction leaves each backup sequence with one slot per stochastic node,
  slot \<open>i\<close> holding the unconstrained value and the gradient of \<open>stochastic_nodes[i]\<close>.
  On such a state the two backup operations succeed and write into slot \<open>i\<close> the
  current unconstrained value and gradient of \<open>stochastic_nodes[i]\<close>; revert, unflatten,
  increment and the log-probability and gradient refresh leave \<open>stochastic_nodes\<close> and
  both backup sequences as they are (the flatten operations return a vector and no
  state); so the lengths stay equal to the length of \<open>stochastic_nodes\<close>.
\<close>

theorem backups_aligned_invariant:
  "(GlobalState_init X g supp gen = (None, s) \<longrightarrow>
      backups_aligned s \<and>
      stochastic_unconstrained_vals_backup s =
        map (\<lambda>p. get_unconstrained_value (graph s ! p)) (stochastic_nodes s) \<and>
      stochastic_unconstrained_grads_backup s =
        map (\<lambda>p. back_grad1 (graph s ! p)) (stochastic_nodes s)) \<and>
   (backups_aligned s \<longrightarrow>
      backup_unconstrained_values s =
        (None, s\<lparr>stochastic_unconstrained_vals_backup :=
                   map (\<lambda>p. get_unconstrained_value (graph s ! p)) (stochastic_nodes s)\<rparr>) \<and>
      backup_unconstrained_grads s =
        (None, s\<lparr>stochastic_unconstrained_grads_backup :=
                   map (\<lambda>p. back_grad1 (graph s ! p)) (stochastic_nodes s)\<rparr>) \<and>
      backups_aligned (snd (backup_unconstrained_values s)) \<and>
      backups_aligned (snd (backup_unconstrained_grads s)) \<and>
      same_backups s (snd (revert_unconstrained_values X s)) \<and>
      same_backups s (snd (revert_unconstrained_grads s)) \<and>
      same_backups s (snd (set_flattened_unconstrained_values X v s)) \<and>
      same_backups s (snd (add_to_stochastic_unconstrained_nodes X v s)) \<and>
      same_backups s (update_log_prob X s) \<and>
      same_backups s (update_backgrad X s) \<and>
      backups_aligned (snd (revert_unconstrained_values X s)) \<and>
      backups_aligned (snd (revert_unconstrained_grads s)) \<and>
      backups_aligned (snd (set_flattened_unconstrained_values X v s)) \<and>
      backups_aligned (snd (add_to_stochastic_unconstrained_nodes X v s)) \<and>
      backups_aligned (update_log_prob X s) \<and>
      backups_aligned (update_backgrad X s))"
proof (intro conjI impI)
  assume init: "GlobalState_init X g supp gen = (None, s)"
  note f = GlobalState_init_fields [OF init]
  show "backups_aligned s" using init by (rule GlobalState_init_invariants)
  show "stochastic_unconstrained_vals_backup s =
        map (\<lambda>p. get_unconstrained_value (graph s ! p)) (stochastic_nodes s)"
    by (simp add: f)
  show "stochastic_unconstrained_grads_backup s =
        map (\<lambda>p. back_grad1 (graph s ! p)) (stochastic_nodes s)"
    by (simp add: f)
next
  assume al: "backups_aligned s"
  show bv: "backup_unconstrained_values s =
        (None, s\<lparr>stochastic_unconstrained_vals_backup :=
                   map (\<lambda>p. get_unconstrained_value (graph s ! p)) (stochastic_nodes s)\<rparr>)"
    using al by (simp add: backups_aligned_def backup_unconstrained_values_ok)
  show bg: "backup_unconstrained_grads s =
        (None, s\<lparr>stochastic_unconstrained_grads_backup :=
                   map (\<lambda>p. back_grad1 (graph s ! p)) (stochastic_nodes s)\<rparr>)"
    using al by (simp add: backups_aligned_def backup_unconstrained_grads_ok)
  show "backups_aligned (snd (backup_unconstrained_values s))"
    using al by (simp add: bv backups_aligned_def)
  show "backups_aligned (snd (backup_unconstrained_grads s))"
    using al by (simp add: bg backups_aligned_def)
  show rv: "same_backups s (snd (revert_unconstrained_values X s))"
    unfolding same_backups_def revert_unconstrained_values_def
    by (rule revert_values_loop_fields) (rule prod.collapse [symmetric])
  show rg: "same_backups s (snd (revert_unconstrained_grads s))"
    unfolding same_backups_def revert_unconstrained_grads_def
    by (rule revert_grads_loop_fields) (rule prod.collapse [symmetric])
  show sf: "same_backups s (snd (set_flattened_unconstrained_values X v s))"
    unfolding same_backups_def
    by (rule set_flattened_fields) (rule prod.collapse [symmetric])
  show ad: "same_backups s (snd (add_to_stochastic_unconstrained_nodes X v s))"
    unfolding same_backups_def
    by (rule add_to_fields) (rule prod.collapse [symmetric])
  show ul: "same_backups s (update_log_prob X s)"
    by (simp add: same_backups_def update_log_prob_def)
  show ub: "same_backups s (update_backgrad X s)"
    by (simp add: same_backups_def update_backgrad_def)
  show "backups_aligned (snd (revert_unconstrained_values X s))"
    using rv al by (rule same_backups_aligned)
  show "backups_aligned (snd (revert_unconstrained_grads s))"
    using rg al by (rule same_backups_aligned)
  show "backups_aligned (snd (set_flattened_unconstrained_values X v s))"
    using sf al by (rule same_backups_aligned)
  show "backups_aligned (snd (add_to_stochastic_unconstrained_nodes X v s))"
    using ad al by (rule same_backups_aligned)
  show "backups_aligned (update_log_prob X s)"
    using ul al by (rule same_backups_aligned)
  show "backups_aligned (update_backgrad X s)"
    using ub al by (rule same_backups_aligned)
qed

lemma example_supp_sorted: "sorted_list_of_fset example_supp = [2, 3, 4, 5, 6]"
  by (simp add: example_supp_def sorted_list_of_fset.rep_eq)

lemma example_init:
  "GlobalState_init example_collaborators example_nodes example_supp 20 = (None, example_state)"
proof -
  have "\<forall>i. i |\<in>| example_supp \<longrightarrow> i < length example_nodes"
    by (simp add: example_supp_def example_nodes_def)
  from GlobalState_init_ok [OF this, of example_collaborators 20]
  have "fst (GlobalState_init example_collaborators example_nodes example_supp 20) = None"
    by (simp add: Let_def)
  then show ?thesis
    unfolding example_state_def by (metis prod.collapse)
qed

lemma example_graph_eq:
  "initialized_graph example_collaborators example_nodes [2, 3, 4, 5, 6] 20 =
   [(example_node False False (NodeType.OTHER_NODE 0) [] (scalar_value 7) TransformType.NONE)
      \<lparr>back_grad1 := \<lparr>dm_double = 1, dm_matrix = []\<rparr>\<rparr>,
    (example_node False False (NodeType.OTHER_NODE 0) [] (scalar_value 8) TransformType.NONE)
      \<lparr>back_grad1 := \<lparr>dm_double = 1, dm_matrix = []\<rparr>\<rparr>,
    (example_node False True NodeType.OPERATOR [0] (scalar_value 20) TransformType.NONE)
      \<lparr>unconstrained_value := scalar_value 0, back_grad1 := \<lparr>dm_double = 1, dm_matrix = []\<rparr>\<rparr>,
    (example_node False True NodeType.OPERATOR [0, 1]
        ((matrix_value [[1, 2, 3]])\<lparr>nv_double := 21\<rparr>) TransformType.NONE)
      \<lparr>unconstrained_value := matrix_value [[1, 2, 3]],
       back_grad1 := \<lparr>dm_double = 1, dm_matrix = []\<rparr>\<rparr>,
    (example_node False False NodeType.OPERATOR [2, 3] (scalar_value 22) TransformType.NONE)
      \<lparr>unconstrained_value := scalar_value 0, back_grad1 := \<lparr>dm_double = 1, dm_matrix = []\<rparr>\<rparr>,
    (example_node False True NodeType.OPERATOR [4] (scalar_value 23)
        (TransformType.OTHER_TRANSFORM 0))
      \<lparr>unconstrained_value := scalar_value 13, back_grad1 := \<lparr>dm_double = 1, dm_matrix = []\<rparr>\<rparr>,
    (example_node True True NodeType.OPERATOR [5] (scalar_value 9) TransformType.NONE)
      \<lparr>back_grad1 := \<lparr>dm_double = 1, dm_matrix = []\<rparr>\<rparr>]"
  by (simp add: initialized_graph_def Let_def example_nodes_def example_node_def
      example_collaborators_def scalar_value_def matrix_value_def zero_grad_def
      sync_unconstrained_value_def upt_rec)


lemma example_state_fields:
  "graph example_state = initialized_graph example_collaborators example_nodes [2, 3, 4, 5, 6] 20"
  "ordered_support example_state = [2, 3, 4, 5, 6]"
  "stochastic_nodes example_state = [2, 3, 5]"
  "deterministic_nodes example_state = [4]"
  using GlobalState_init_fields [OF example_init]
  by (simp_all add: example_supp_sorted example_nodes_def example_node_def)

lemma example_unconstrained:
  "get_unconstrained_value (graph example_state ! 2) = scalar_value 20"
  "get_unconstrained_value (graph example_state ! 3) = (matrix_value [[1, 2, 3]])\<lparr>nv_double := 21\<rparr>"
  "get_unconstrained_value (graph example_state ! 5) = scalar_value 13"
  by (simp_all add: example_state_fields example_graph_eq get_unconstrained_value_def
      example_node_def)

lemma example_inputs_earlier: "inputs_earlier example_nodes"
  by (simp add: inputs_earlier_def example_nodes_def example_node_def upt_rec)

theorem support_minimal_and_ordered_witness:
  "GlobalState_init example_collaborators example_nodes example_supp 20 = (None, example_state) \<and>
   inputs_earlier example_nodes \<and>
   ordered_support example_state = [2, 3, 4, 5, 6] \<and>
   set (ordered_support example_state) = fset example_supp \<and>
   in_nodes (graph example_state ! 5) = [4] \<and>
   (\<exists>k'<3. ordered_support example_state ! k' = 4)"
proof -
  note ordered = support_minimal_and_ordered [OF example_init example_inputs_earlier]
  have ins: "in_nodes (graph example_state ! 5) = [4]"
    by (simp add: example_state_fields example_graph_eq example_node_def)
  have "3 < length (ordered_support example_state)"
    and "4 \<in> set (in_nodes (graph example_state ! (ordered_support example_state ! 3)))"
    and "4 |\<in>| example_supp"
    by (simp_all add: example_state_fields(2) ins example_supp_def)
  with ordered have "\<exists>k'<3. ordered_support example_state ! k' = 4" by blast
  with ordered ins example_init example_inputs_earlier example_state_fields(2)
  show ?thesis by simp
qed

theorem partition_pass_witness:
  "GlobalState_init example_collaborators example_nodes example_supp 20 = (None, example_state) \<and>
   stochastic_nodes example_state = [2, 3, 5] \<and>
   deterministic_nodes example_state = [4] \<and>
   stochastic_nodes example_state =
     filter (\<lambda>p. stochastic (graph example_state ! p) \<and> \<not> is_observed (graph example_state ! p))
       (ordered_support example_state) \<and>
   deterministic_nodes example_state =
     filter (\<lambda>p. \<not> stochastic (graph example_state ! p)) (ordered_support example_state)"
  using partition_pass [OF example_init] example_init example_state_fields(3,4)
  by simp

theorem flat_size_consistency_witness:
  "GlobalState_init example_collaborators example_nodes example_supp 20 = (None, example_state) \<and>
   flat_size example_state = 5 \<and>
   get_flattened_unconstrained_values example_collaborators example_state [] =
     (None, [20, 1, 2, 3, 13])"
proof -
  have width: "(\<Sum>p\<leftarrow>stochastic_nodes example_state.
              if variable_type (get_unconstrained_value (graph example_state ! p)) = VariableType.SCALAR
              then 1
              else matrix_size (nv_matrix (get_unconstrained_value (graph example_state ! p)))) = 5"
    by (simp add: example_state_fields(3) example_unconstrained scalar_value_def
        matrix_value_def matrix_size_def)
  have elements: "concat (map (\<lambda>p. flat_elements (get_unconstrained_value (graph example_state ! p)))
                        (stochastic_nodes example_state)) = [20, 1, 2, 3, 13]"
    by (simp add: example_state_fields(3) example_unconstrained scalar_value_def
        matrix_value_def flat_elements_def matrix_data_def)
  from flat_size_consistency [OF example_init, of "[]"] width elements example_init
  show ?thesis by simp
qed

lemma example_flat_size: "flat_size example_state = 5"
proof -
  have "flat_size_ok example_state"
    using example_init by (rule GlobalState_init_invariants)
  then show ?thesis
    by (simp add: flat_size_ok_def total_width_def example_state_fields(3) example_unconstrained
        flat_width_def scalar_value_def matrix_value_def matrix_size_def)
qed

theorem size_mismatch_no_mutation_witness:
  "flat_size example_state = 5 \<and>
   set_flattened_unconstrained_values example_collaborators [0, 0, 0, 0] example_state =
     (Some invalid_argument, example_state) \<and>
   set_flattened_unconstrained_values example_collaborators [0, 0, 0, 0, 0, 0] example_state =
     (Some invalid_argument, example_state) \<and>
   add_to_stochastic_unconstrained_nodes example_collaborators [0, 0, 0, 0] example_state =
     (Some invalid_argument, example_state)"
proof -
  have four: "length [0, 0, 0, 0 :: int] \<noteq> flat_size example_state"
    and six: "length [0, 0, 0, 0, 0, 0 :: int] \<noteq> flat_size example_state"
    by (simp_all add: example_flat_size)
  from size_mismatch_no_mutation [OF four, of example_collaborators]
    size_mismatch_no_mutation [OF six, of example_collaborators] example_flat_size
  show ?thesis by simp
qed

lemma example_invariants:
  "nodes_valid example_state" "backups_aligned example_state" "flat_size_ok example_state"
  using example_init by (rule GlobalState_init_invariants)+

theorem backup_revert_restores_witness:
  "nodes_valid example_state \<and> backups_aligned example_state \<and>
   length (map (\<lambda>n. n\<lparr>node_value := scalar_value 99, unconstrained_value := scalar_value 77\<rparr>)
             (graph example_state)) = length (graph example_state) \<and>
   (\<exists>s1 s3.
      backup_unconstrained_values example_state = (None, s1) \<and>
      revert_unconstrained_values example_collaborators
        (s1\<lparr>graph := map (\<lambda>n. n\<lparr>node_value := scalar_value 99,
                                   unconstrained_value := scalar_value 77\<rparr>)
                          (graph example_state)\<rparr>) = (None, s3) \<and>
      (\<forall>p\<in>set (stochastic_nodes example_state).
         get_unconstrained_value (graph s3 ! p) =
           get_unconstrained_value (graph example_state ! p) \<and>
         value_consistent example_collaborators (graph s3 ! p)))"
proof -
  have len: "length (map (\<lambda>n. n\<lparr>node_value := scalar_value 99, unconstrained_value := scalar_value 77\<rparr>)
             (graph example_state)) = length (graph example_state)"
    by simp
  from backup_revert_restores [OF example_invariants(1,2) len, of example_collaborators]
    example_invariants(1,2) len
  show ?thesis by blast
qed

theorem backups_aligned_invariant_witness:
  "GlobalState_init example_collaborators example_nodes example_supp 20 = (None, example_state) \<and>
   backups_aligned example_state \<and>
   stochastic_unconstrained_vals_backup example_state =
     [scalar_value 20, (matrix_value [[1, 2, 3]])\<lparr>nv_double := 21\<rparr>, scalar_value 13] \<and>
   length (stochastic_unconstrained_grads_backup example_state) = 3 \<and>
   backups_aligned (snd (revert_unconstrained_values example_collaborators example_state)) \<and>
   backups_aligned
     (snd (add_to_stochastic_unconstrained_nodes example_collaborators [1, 1, 1, 1, 1] example_state))"
proof -
  note inv = backups_aligned_invariant
    [of example_collaborators example_nodes example_supp 20 example_state "[1, 1, 1, 1, 1]"]
  from inv example_init have al: "backups_aligned example_state" by blast
  from inv example_init have
    "stochastic_unconstrained_vals_backup example_state =
       map (\<lambda>p. get_unconstrained_value (graph example_state ! p)) (stochastic_nodes example_state)"
    by blast
  then have vb: "stochastic_unconstrained_vals_backup example_state =
     [scalar_value 20, (matrix_value [[1, 2, 3]])\<lparr>nv_double := 21\<rparr>, scalar_value 13]"
    by (simp add: example_state_fields(3) example_unconstrained)
  from al have gb: "length (stochastic_unconstrained_grads_backup example_state) = 3"
    by (simp add: backups_aligned_def example_state_fields(3))
  from inv al have
    "backups_aligned (snd (revert_unconstrained_values example_collaborators example_state))"
    "backups_aligned
       (snd (add_to_stochastic_unconstrained_nodes example_collaborators [1, 1, 1, 1, 1] example_state))"
    by blast+
  with example_init al vb gb show ?thesis by simp
qed

lemma row_init:
  "GlobalState_init example_collaborators row_nodes {|0|} 20 = (None, row_state)"
proof -
  have "\<forall>i. i |\<in>| {|0|} \<longrightarrow> i < length row_nodes"
    by (simp add: row_nodes_def)
  from GlobalState_init_ok [OF this, of example_collaborators 20]
  have "fst (GlobalState_init example_collaborators row_nodes {|0|} 20) = None"
    by (simp add: Let_def)
  then show ?thesis
    unfolding row_state_def by (metis prod.collapse)
qed

lemma row_state_eq:
  "row_state =
     \<lparr>graph = [(example_node False True NodeType.OPERATOR []
                  ((matrix_value [[1], [2]])\<lparr>nv_double := 20\<rparr>) TransformType.NONE)
                 \<lparr>unconstrained_value := matrix_value [[1], [2]],
                  back_grad1 := \<lparr>dm_double = 1, dm_matrix = []\<rparr>\<rparr>],
      ordered_support = [0], stochastic_nodes = [0], deterministic_nodes = [], flat_size = 2,
      stochastic_unconstrained_vals_backup = [(matrix_value [[1], [2]])\<lparr>nv_double := 20\<rparr>],
      stochastic_unconstrained_grads_backup = [\<lparr>dm_double = 1, dm_matrix = []\<rparr>],
      log_prob = 0\<rparr>"
proof -
  have "\<forall>i. i |\<in>| {|0|} \<longrightarrow> i < length row_nodes"
    by (simp add: row_nodes_def)
  from GlobalState_init_ok [OF this, of example_collaborators 20]
  show ?thesis
    unfolding row_state_def
    by (simp add: Let_def sorted_list_of_fset.rep_eq initialized_graph_def row_nodes_def
        example_node_def example_collaborators_def matrix_value_def zero_grad_def
        sync_unconstrained_value_def total_width_def flat_width_def matrix_size_def
        get_unconstrained_value_def)
qed

text \<open>
  Claim C1: setting back the vector that \<open>get_flattened_unconstrained_values\<close> produced
  should leave every stochastic node's unconstrained value as it was.  The code does
  not, at the state constructed from one stochastic node whose unconstrained value is a
  matrix of one row and two columns: the flattened vector is \<open>[1, 2]\<close>, and setting it
  back succeeds and leaves the node with a matrix of two rows and one column, which is
  not the value it had.  The sibling writer \<open>revert_unconstrained_values\<close>, run on that
  state, puts the snapshot taken at construction back with its one row and two columns.
\<close>

theorem flatten_round_trip_reshapes:
  "GlobalState_init example_collaborators row_nodes {|0|} 20 = (None, row_state) \<and>
   stochastic_nodes row_state = [0] \<and>
   nv_matrix (get_unconstrained_value (graph row_state ! 0)) = [[1], [2]] \<and>
   get_flattened_unconstrained_values example_collaborators row_state [] = (None, [1, 2]) \<and>
   fst (set_flattened_unconstrained_values example_collaborators [1, 2] row_state) = None \<and>
   nv_matrix (get_unconstrained_value
     (graph (snd (set_flattened_unconstrained_values example_collaborators [1, 2] row_state)) ! 0))
     = [[1, 2]] \<and>
   get_unconstrained_value
     (graph (snd (set_flattened_unconstrained_values example_collaborators [1, 2] row_state)) ! 0)
     \<noteq> get_unconstrained_value (graph row_state ! 0) \<and>
   fst (revert_unconstrained_values example_collaborators
          (snd (set_flattened_unconstrained_values example_collaborators [1, 2] row_state))) = None \<and>
   get_unconstrained_value
     (graph (snd (revert_unconstrained_values example_collaborators
          (snd (set_flattened_unconstrained_values example_collaborators [1, 2] row_state)))) ! 0)
     = get_unconstrained_value (graph row_state ! 0)"
proof -
  have get: "get_flattened_unconstrained_values example_collaborators row_state [] = (None, [1, 2])"
    by (simp add: row_state_eq get_flattened_unconstrained_values_def resize_def
        example_collaborators_def get_unconstrained_value_def example_node_def matrix_value_def
        matrix_data_def matrix_size_def write_segment_def Let_def)
  have set: "set_flattened_unconstrained_values example_collaborators [1, 2] row_state =
      (None, row_state\<lparr>graph :=
         [(example_node False True NodeType.OPERATOR []
                  ((matrix_value [[1, 2]])\<lparr>nv_double := 20\<rparr>) TransformType.NONE)
                 \<lparr>unconstrained_value := matrix_value [[1], [2]],
                  back_grad1 := \<lparr>dm_double = 1, dm_matrix = []\<rparr>\<rparr>]\<rparr>)"
    by (simp add: row_state_eq set_flattened_unconstrained_values_def
        get_unconstrained_value_def set_unconstrained_value_def example_node_def matrix_value_def
        matrix_of_vector_def matrix_size_def segment_def Let_def)
  have revert: "revert_unconstrained_values example_collaborators
      (row_state\<lparr>graph :=
         [(example_node False True NodeType.OPERATOR []
                  ((matrix_value [[1, 2]])\<lparr>nv_double := 20\<rparr>) TransformType.NONE)
                 \<lparr>unconstrained_value := matrix_value [[1], [2]],
                  back_grad1 := \<lparr>dm_double = 1, dm_matrix = []\<rparr>\<rparr>]\<rparr>) = (None, row_state)"
    by (simp add: row_state_eq revert_unconstrained_values_def Let_def
        set_unconstrained_value_def get_original_value_def example_node_def matrix_value_def)
  show ?thesis
    unfolding set
    by (simp add: row_init get revert)
       (simp add: row_state_eq get_unconstrained_value_def example_node_def matrix_value_def)
qed

lemma length_pieces [simp]: "length (pieces ws v) = length ws"
  by (induction ws arbitrary: v) simp_all

lemma concat_pieces: "sum_list ws = length v \<Longrightarrow> concat (pieces ws v) = v"
proof (induction ws arbitrary: v)
  case Nil
  then show ?case by simp
next
  case (Cons w ws)
  then have "sum_list ws = length (drop w v)" by simp
  then have "concat (pieces ws (drop w v)) = drop w v" by (rule Cons.IH)
  then show ?case by simp
qed

lemma pieces_nth:
  "k < length ws \<Longrightarrow> pieces ws v ! k = segment (sum_list (take k ws)) (ws ! k) v"
proof (induction ws arbitrary: k v)
  case Nil
  then show ?case by simp
next
  case (Cons w ws)
  show ?case
  proof (cases k)
    case 0
    then show ?thesis by (simp add: segment_def)
  next
    case (Suc k')
    with Cons.prems have "k' < length ws" by simp
    then have "pieces ws (drop w v) ! k' = segment (sum_list (take k' ws)) (ws ! k') (drop w v)"
      by (rule Cons.IH)
    with Suc show ?thesis by (simp add: segment_def add.commute)
  qed
qed

lemma length_pieces_nth:
  "sum_list ws = length v \<Longrightarrow> k < length ws \<Longrightarrow> length (pieces ws v ! k) = ws ! k"
proof (induction ws arbitrary: k v)
  case Nil
  then show ?case by simp
next
  case (Cons w ws)
  show ?case
  proof (cases k)
    case 0
    with Cons.prems show ?thesis by simp
  next
    case (Suc k')
    with Cons.prems have "sum_list ws = length (drop w v)" "k' < length ws" by simp_all
    then have "length (pieces ws (drop w v) ! k') = ws ! k'" by (rule Cons.IH)
    with Suc show ?thesis by simp
  qed
qed

lemma get_unconstrained_unflattened_node:
  "get_unconstrained_value (unflattened_node X w n) =
     (if variable_type (get_unconstrained_value n) = VariableType.SCALAR
      then (get_unconstrained_value n)\<lparr>nv_double := hd w\<rparr>
      else (get_unconstrained_value n)\<lparr>nv_matrix := matrix_of_vector w\<rparr>)"
  by (cases "transform_type n = TransformType.NONE")
     (simp_all add: unflattened_node_def Let_def get_original_value_def
        set_unconstrained_value_def get_unconstrained_value_def)

lemma unflattened_node_elements:
  "length w = flat_width (get_unconstrained_value n) \<Longrightarrow>
   flat_elements (get_unconstrained_value (unflattened_node X w n)) = w"
proof (cases "variable_type (get_unconstrained_value n) = VariableType.SCALAR")
  case True
  assume "length w = flat_width (get_unconstrained_value n)"
  with True have "length w = 1" by (simp add: flat_width_def)
  then have "[hd w] = w" by (cases w) simp_all
  with True show ?thesis
    by (simp add: get_unconstrained_unflattened_node flat_elements_def)
next
  case False
  then show ?thesis
    by (simp add: get_unconstrained_unflattened_node flat_elements_def matrix_of_vector_def
        matrix_data_def)
qed

lemma set_flattened_then_flattened:
  assumes "nodes_valid s" and "flat_size_ok s" and "length fv = flat_size s"
  shows "\<exists>s'. set_flattened_unconstrained_values X fv s = (None, s') \<and>
           nodes_valid s' \<and> flat_size_ok s' \<and> flat_size s' = flat_size s \<and>
           flattened s' = fv"
proof -
  let ?sn = "stochastic_nodes s"
  let ?width = "\<lambda>p. flat_width (get_unconstrained_value (graph s ! p))"
  let ?ws = "map ?width ?sn"
  from set_flattened_unconstrained_values_ok [OF assms, of X] obtain g' where
    set: "set_flattened_unconstrained_values X fv s = (None, s\<lparr>graph := g'\<rparr>)"
    and len: "length g' = length (graph s)"
    and written: "\<forall>k<length ?sn. g' ! (?sn ! k) =
              unflattened_node X
                (segment (total_width (graph s) (take k ?sn)) (?width (?sn ! k)) fv)
                (graph s ! (?sn ! k))"
    by blast
  from assms(2,3) have total: "sum_list ?ws = length fv"
    by (simp add: flat_size_ok_def total_width_def)
  have piece: "flat_elements (get_unconstrained_value (g' ! (?sn ! k))) = pieces ?ws fv ! k"
    if k: "k < length ?sn" for k
  proof -
    from k have eq: "pieces ?ws fv ! k = segment (total_width (graph s) (take k ?sn)) (?width (?sn ! k)) fv"
      by (simp add: pieces_nth total_width_def take_map)
    from k total have "length (pieces ?ws fv ! k) = ?width (?sn ! k)"
      by (simp add: length_pieces_nth)
    then have "flat_elements (get_unconstrained_value
                 (unflattened_node X (pieces ?ws fv ! k) (graph s ! (?sn ! k)))) = pieces ?ws fv ! k"
      by (rule unflattened_node_elements)
    with written k eq show ?thesis by simp
  qed
  have "map (\<lambda>p. flat_elements (get_unconstrained_value (g' ! p))) ?sn = pieces ?ws fv"
    by (rule nth_equalityI) (simp_all add: piece)
  then have flat: "flattened (s\<lparr>graph := g'\<rparr>) = fv"
    using total by (simp add: flattened_def concat_pieces)
  from assms(1) len have valid: "nodes_valid (s\<lparr>graph := g'\<rparr>)"
    by (simp add: nodes_valid_def)
  from flat assms(3) have "flat_size_ok (s\<lparr>graph := g'\<rparr>)"
    by (simp add: flat_size_ok_def total_width_concat flattened_def)
  with set valid flat show ?thesis by simp
qed

lemma add_to_stochastic_unconstrained_nodes_ok:
  assumes "nodes_valid s" and "flat_size_ok s" and "length increment = flat_size s"
  shows "\<exists>s'. add_to_stochastic_unconstrained_nodes X increment s = (None, s') \<and>
           nodes_valid s' \<and> flat_size_ok s' \<and> flat_size s' = flat_size s \<and>
           flattened s' = map2 (plus_double X) (flattened s) increment"
proof -
  have get: "get_flattened_unconstrained_values X s [] = (None, flattened s)"
    using assms(2) by (simp add: get_flattened_unconstrained_values_ok flattened_def)
  from assms(2) have "length (flattened s) = flat_size s"
    by (simp add: flat_size_ok_def total_width_concat flattened_def)
  with assms(3) have "length (map2 (plus_double X) (flattened s) increment) = flat_size s"
    by simp
  from set_flattened_then_flattened [OF assms(1,2) this, of X] get assms(3)
  show ?thesis by (simp add: add_to_stochastic_unconstrained_nodes_def)
qed

lemma map2_regroup:
  "length xs = length v1 \<Longrightarrow> length v1 = length v2 \<Longrightarrow>
   (map2 f (map2 f xs v1) v2 = map2 f xs (map2 f v1 v2)) =
     list_all (\<lambda>(x, a, b). f (f x a) b = f x (f a b)) (zip xs (zip v1 v2))"
  by (induction xs v1 v2 rule: list_induct3) simp_all

text \<open>
  Claim C3, as the code has it.  On a well-formed state and for \<open>v1\<close>, \<open>v2\<close> of length
  \<open>flat_size\<close>, the two calls in sequence and the single call all succeed; the sequence
  leaves the flattened vector \<open>(x + v1) + v2\<close> and the single call \<open>x + (v1 + v2)\<close>,
  added element by element with the addition of doubles, \<open>x\<close> being the flattened
  vector before.  They are the same vector exactly when the additions associate on
  every element.
\<close>

theorem increment_composition:
  assumes "nodes_valid s" and "flat_size_ok s"
    and "length v1 = flat_size s" and "length v2 = flat_size s"
  shows "\<exists>s1 s2 s12.
           add_to_stochastic_unconstrained_nodes X v1 s = (None, s1) \<and>
           add_to_stochastic_unconstrained_nodes X v2 s1 = (None, s2) \<and>
           add_to_stochastic_unconstrained_nodes X (map2 (plus_double X) v1 v2) s = (None, s12) \<and>
           get_flattened_unconstrained_values X s2 out =
             (None, map2 (plus_double X) (map2 (plus_double X) (flattened s) v1) v2) \<and>
           get_flattened_unconstrained_values X s12 out =
             (None, map2 (plus_double X) (flattened s) (map2 (plus_double X) v1 v2)) \<and>
           (get_flattened_unconstrained_values X s2 out =
              get_flattened_unconstrained_values X s12 out) =
             list_all (\<lambda>(x, a, b). plus_double X (plus_double X x a) b =
                                     plus_double X x (plus_double X a b))
               (zip (flattened s) (zip v1 v2))"
proof -
  let ?plus = "plus_double X"
  from add_to_stochastic_unconstrained_nodes_ok [OF assms(1,2,3), of X] obtain s1 where
    s1: "add_to_stochastic_unconstrained_nodes X v1 s = (None, s1)"
    "nodes_valid s1" "flat_size_ok s1" "flat_size s1 = flat_size s"
    "flattened s1 = map2 ?plus (flattened s) v1"
    by blast
  from assms(4) s1(4) have "length v2 = flat_size s1" by simp
  from add_to_stochastic_unconstrained_nodes_ok [OF s1(2,3) this, of X] obtain s2 where
    s2: "add_to_stochastic_unconstrained_nodes X v2 s1 = (None, s2)"
    "flat_size_ok s2" "flattened s2 = map2 ?plus (flattened s1) v2"
    by blast
  from assms(3,4) have "length (map2 ?plus v1 v2) = flat_size s" by simp
  from add_to_stochastic_unconstrained_nodes_ok [OF assms(1,2) this, of X] obtain s12 where
    s12: "add_to_stochastic_unconstrained_nodes X (map2 ?plus v1 v2) s = (None, s12)"
    "flat_size_ok s12" "flattened s12 = map2 ?plus (flattened s) (map2 ?plus v1 v2)"
    by blast
  have get2: "get_flattened_unconstrained_values X s2 out =
             (None, map2 ?plus (map2 ?plus (flattened s) v1) v2)"
    using s2(2,3) s1(5) by (simp add: get_flattened_unconstrained_values_ok flattened_def)
  have get12: "get_flattened_unconstrained_values X s12 out =
             (None, map2 ?plus (flattened s) (map2 ?plus v1 v2))"
    using s12(2,3) by (simp add: get_flattened_unconstrained_values_ok flattened_def)
  from assms(2) have "length (flattened s) = flat_size s"
    by (simp add: flat_size_ok_def total_width_concat flattened_def)
  with assms(3,4) have "length (flattened s) = length v1" "length v1 = length v2"
    by simp_all
  then have "(map2 ?plus (map2 ?plus (flattened s) v1) v2 =
              map2 ?plus (flattened s) (map2 ?plus v1 v2)) =
      list_all (\<lambda>(x, a, b). ?plus (?plus x a) b = ?plus x (?plus a b))
        (zip (flattened s) (zip v1 v2))"
    by (rule map2_regroup)
  then have "(get_flattened_unconstrained_values X s2 out =
              get_flattened_unconstrained_values X s12 out) =
      list_all (\<lambda>(x, a, b). ?plus (?plus x a) b = ?plus x (?plus a b))
        (zip (flattened s) (zip v1 v2))"
    by (simp add: get2 get12)
  with get2 get12 s1(1) s2(1) s12(1) show ?thesis by blast
qed

lemma excess_bits_fits: "a < 2 ^ 53 \<Longrightarrow> excess_bits a = 0"
  by (subst excess_bits.simps) simp

lemma excess_bits_one: "2 ^ 53 \<le> a \<Longrightarrow> a < 2 ^ 54 \<Longrightarrow> excess_bits a = 1"
  by (subst excess_bits.simps) (simp add: excess_bits_fits)

lemma double_add_examples:
  "double_add 9007199254740992 1 = 9007199254740992"
  "double_add 1 1 = 2"
  "double_add 9007199254740992 2 = 9007199254740994"
  by (simp_all add: double_add_def round_to_double_def Let_def excess_bits_fits excess_bits_one)

lemma big_state_eq:
  "big_state =
     \<lparr>graph = [(example_node False True NodeType.OPERATOR []
                  (scalar_value 9007199254740992) TransformType.NONE)
                 \<lparr>unconstrained_value := scalar_value 0,
                  back_grad1 := \<lparr>dm_double = 1, dm_matrix = []\<rparr>\<rparr>],
      ordered_support = [0], stochastic_nodes = [0], deterministic_nodes = [], flat_size = 1,
      stochastic_unconstrained_vals_backup = [scalar_value 9007199254740992],
      stochastic_unconstrained_grads_backup = [\<lparr>dm_double = 1, dm_matrix = []\<rparr>],
      log_prob = 0\<rparr>"
proof -
  have "\<forall>i. i |\<in>| {|0|} \<longrightarrow> i < length big_nodes"
    by (simp add: big_nodes_def)
  from GlobalState_init_ok [OF this, of double_collaborators 9007199254740992]
  show ?thesis
    unfolding big_state_def
    by (simp add: Let_def sorted_list_of_fset.rep_eq initialized_graph_def big_nodes_def
        example_node_def double_collaborators_def example_collaborators_def scalar_value_def
        zero_grad_def sync_unconstrained_value_def total_width_def flat_width_def
        get_unconstrained_value_def)
qed

lemma big_init:
  "GlobalState_init double_collaborators big_nodes {|0|} 9007199254740992 = (None, big_state)"
proof -
  have "\<forall>i. i |\<in>| {|0|} \<longrightarrow> i < length big_nodes"
    by (simp add: big_nodes_def)
  from GlobalState_init_ok [OF this, of double_collaborators 9007199254740992]
  have "fst (GlobalState_init double_collaborators big_nodes {|0|} 9007199254740992) = None"
    by (simp add: Let_def)
  then show ?thesis
    unfolding big_state_def by (metis prod.collapse)
qed

lemma big_flattened:
  "get_flattened_unconstrained_values double_collaborators
     (big_state\<lparr>graph := [(example_node False True NodeType.OPERATOR []
                  (scalar_value x) TransformType.NONE)
                 \<lparr>unconstrained_value := scalar_value 0,
                  back_grad1 := \<lparr>dm_double = 1, dm_matrix = []\<rparr>\<rparr>]\<rparr>) [] = (None, [x])"
  by (simp add: big_state_eq get_flattened_unconstrained_values_def resize_def
      double_collaborators_def example_collaborators_def get_unconstrained_value_def
      example_node_def scalar_value_def Let_def)

lemma big_set:
  "set_flattened_unconstrained_values double_collaborators [x] big_state =
     (None, big_state\<lparr>graph := [(example_node False True NodeType.OPERATOR []
                  (scalar_value x) TransformType.NONE)
                 \<lparr>unconstrained_value := scalar_value 0,
                  back_grad1 := \<lparr>dm_double = 1, dm_matrix = []\<rparr>\<rparr>]\<rparr>)"
  by (simp add: big_state_eq set_flattened_unconstrained_values_def
      get_unconstrained_value_def set_unconstrained_value_def example_node_def scalar_value_def
      Let_def)

lemma big_state_graph:
  "big_state\<lparr>graph := [(example_node False True NodeType.OPERATOR []
                  (scalar_value 9007199254740992) TransformType.NONE)
                 \<lparr>unconstrained_value := scalar_value 0,
                  back_grad1 := \<lparr>dm_double = 1, dm_matrix = []\<rparr>\<rparr>]\<rparr> = big_state"
  by (simp add: big_state_eq)

lemma big_add:
  "add_to_stochastic_unconstrained_nodes double_collaborators [1] big_state = (None, big_state)"
  "add_to_stochastic_unconstrained_nodes double_collaborators [2] big_state =
     (None, big_state\<lparr>graph := [(example_node False True NodeType.OPERATOR []
                  (scalar_value 9007199254740994) TransformType.NONE)
                 \<lparr>unconstrained_value := scalar_value 0,
                  back_grad1 := \<lparr>dm_double = 1, dm_matrix = []\<rparr>\<rparr>]\<rparr>)"
proof -
  have flat: "flat_size big_state = 1" by (simp add: big_state_eq)
  have get: "get_flattened_unconstrained_values double_collaborators big_state [] =
      (None, [9007199254740992])"
    using big_flattened [of 9007199254740992] by (simp add: big_state_graph)
  have plus: "plus_double double_collaborators = double_add"
    by (simp add: double_collaborators_def)
  show "add_to_stochastic_unconstrained_nodes double_collaborators [1] big_state = (None, big_state)"
    by (simp add: add_to_stochastic_unconstrained_nodes_def flat get plus double_add_examples
        big_set big_state_graph)
  show "add_to_stochastic_unconstrained_nodes double_collaborators [2] big_state =
     (None, big_state\<lparr>graph := [(example_node False True NodeType.OPERATOR []
                  (scalar_value 9007199254740994) TransformType.NONE)
                 \<lparr>unconstrained_value := scalar_value 0,
                  back_grad1 := \<lparr>dm_double = 1, dm_matrix = []\<rparr>\<rparr>]\<rparr>)"
    by (simp add: add_to_stochastic_unconstrained_nodes_def flat get plus double_add_examples
        big_set)
qed

text \<open>
  Claim C3 as stated fails in double arithmetic: with the single unconstrained value
  \<open>2 ^ 53\<close>, adding \<open>1\<close> twice leaves \<open>2 ^ 53\<close> (each sum is a tie and rounds to the
  even significand), and adding \<open>1 + 1 = 2\<close> once gives \<open>2 ^ 53 + 2\<close>.
\<close>

theorem increment_composition_counterexample:
  "GlobalState_init double_collaborators big_nodes {|0|} 9007199254740992 = (None, big_state) \<and>
   flat_size big_state = 1 \<and>
   get_flattened_unconstrained_values double_collaborators big_state [] =
     (None, [9007199254740992]) \<and>
   fst (add_to_stochastic_unconstrained_nodes double_collaborators [1] big_state) = None \<and>
   fst (add_to_stochastic_unconstrained_nodes double_collaborators [1]
         (snd (add_to_stochastic_unconstrained_nodes double_collaborators [1] big_state))) = None \<and>
   get_flattened_unconstrained_values double_collaborators
     (snd (add_to_stochastic_unconstrained_nodes double_collaborators [1]
         (snd (add_to_stochastic_unconstrained_nodes double_collaborators [1] big_state)))) [] =
     (None, [9007199254740992]) \<and>
   map2 (plus_double double_collaborators) [1] [1] = [2] \<and>
   fst (add_to_stochastic_unconstrained_nodes double_collaborators [2] big_state) = None \<and>
   get_flattened_unconstrained_values double_collaborators
     (snd (add_to_stochastic_unconstrained_nodes double_collaborators [2] big_state)) [] =
     (None, [9007199254740994]) \<and>
   get_flattened_unconstrained_values double_collaborators
     (snd (add_to_stochastic_unconstrained_nodes double_collaborators [1]
         (snd (add_to_stochastic_unconstrained_nodes double_collaborators [1] big_state)))) [] \<noteq>
   get_flattened_unconstrained_values double_collaborators
     (snd (add_to_stochastic_unconstrained_nodes double_collaborators
             (map2 (plus_double double_collaborators) [1] [1]) big_state)) []"
proof -
  have flat: "flat_size big_state = 1" by (simp add: big_state_eq)
  have get: "get_flattened_unconstrained_values double_collaborators big_state [] =
      (None, [9007199254740992])"
    using big_flattened [of 9007199254740992] by (simp add: big_state_graph)
  have plus: "map2 (plus_double double_collaborators) [1] [1] = [2]"
    by (simp add: double_collaborators_def double_add_examples)
  show ?thesis
    unfolding plus by (simp add: big_init flat get big_add big_flattened)
qed

theorem increment_composition_witness:
  "nodes_valid example_state \<and> flat_size_ok example_state \<and>
   length [1, 1, 1, 1, 1 :: int] = flat_size example_state \<and>
   length [2, 2, 2, 2, 2 :: int] = flat_size example_state \<and>
   flattened example_state = [20, 1, 2, 3, 13] \<and>
   (\<exists>s1 s2 s12.
      add_to_stochastic_unconstrained_nodes example_collaborators [1, 1, 1, 1, 1] example_state
        = (None, s1) \<and>
      add_to_stochastic_unconstrained_nodes example_collaborators [2, 2, 2, 2, 2] s1 = (None, s2) \<and>
      add_to_stochastic_unconstrained_nodes example_collaborators [3, 3, 3, 3, 3] example_state
        = (None, s12) \<and>
      get_flattened_unconstrained_values example_collaborators s2 [] = (None, [23, 4, 5, 6, 16]) \<and>
      get_flattened_unconstrained_values example_collaborators s12 [] = (None, [23, 4, 5, 6, 16])) \<and>
   nodes_valid big_state \<and> flat_size_ok big_state \<and>
   length [1 :: int] = flat_size big_state \<and>
   flattened big_state = [9007199254740992] \<and>
   (\<exists>s1 s2 s12.
      add_to_stochastic_unconstrained_nodes double_collaborators [1] big_state = (None, s1) \<and>
      add_to_stochastic_unconstrained_nodes double_collaborators [1] s1 = (None, s2) \<and>
      add_to_stochastic_unconstrained_nodes double_collaborators [2] big_state = (None, s12) \<and>
      get_flattened_unconstrained_values double_collaborators s2 [] =
        (None, [9007199254740992]) \<and>
      get_flattened_unconstrained_values double_collaborators s12 [] =
        (None, [9007199254740994]) \<and>
      get_flattened_unconstrained_values double_collaborators s2 [] \<noteq>
        get_flattened_unconstrained_values double_collaborators s12 [])"
proof -
  have len: "length [1, 1, 1, 1, 1 :: int] = flat_size example_state"
    "length [2, 2, 2, 2, 2 :: int] = flat_size example_state"
    by (simp_all add: example_flat_size)
  have flat: "flattened example_state = [20, 1, 2, 3, 13]"
    by (simp add: flattened_def example_state_fields(3) example_unconstrained scalar_value_def
        matrix_value_def flat_elements_def matrix_data_def)
  have plus: "plus_double example_collaborators = (+)"
    by (simp add: example_collaborators_def)
  from increment_composition [OF example_invariants(1,3) len, of example_collaborators "[]"]
  obtain s1 s2 s12 where small:
    "add_to_stochastic_unconstrained_nodes example_collaborators [1, 1, 1, 1, 1] example_state
        = (None, s1)"
    "add_to_stochastic_unconstrained_nodes example_collaborators [2, 2, 2, 2, 2] s1 = (None, s2)"
    "add_to_stochastic_unconstrained_nodes example_collaborators [3, 3, 3, 3, 3] example_state
        = (None, s12)"
    "get_flattened_unconstrained_values example_collaborators s2 [] = (None, [23, 4, 5, 6, 16])"
    "get_flattened_unconstrained_values example_collaborators s12 [] = (None, [23, 4, 5, 6, 16])"
    by (auto simp: plus flat)
  have big_inv: "nodes_valid big_state" "flat_size_ok big_state"
    using big_init by (rule GlobalState_init_invariants)+
  have big_len: "length [1 :: int] = flat_size big_state"
    by (simp add: big_state_eq)
  have big_flat: "flattened big_state = [9007199254740992]"
    by (simp add: flattened_def big_state_eq get_unconstrained_value_def example_node_def
        scalar_value_def flat_elements_def)
  have big_plus: "plus_double double_collaborators = double_add"
    by (simp add: double_collaborators_def)
  from increment_composition [OF big_inv big_len big_len, of double_collaborators "[]"]
  obtain t1 t2 t12 where big:
    "add_to_stochastic_unconstrained_nodes double_collaborators [1] big_state = (None, t1)"
    "add_to_stochastic_unconstrained_nodes double_collaborators [1] t1 = (None, t2)"
    "add_to_stochastic_unconstrained_nodes double_collaborators [2] big_state = (None, t12)"
    "get_flattened_unconstrained_values double_collaborators t2 [] = (None, [9007199254740992])"
    "get_flattened_unconstrained_values double_collaborators t12 [] = (None, [9007199254740994])"
    by (auto simp: big_plus big_flat double_add_examples)
  from big(4,5) have "get_flattened_unconstrained_values double_collaborators t2 [] \<noteq>
        get_flattened_unconstrained_values double_collaborators t12 []"
    by simp
  with small big example_invariants(1,3) len flat big_inv big_len big_flat
  show ?thesis by blast
qed

end
